theory Spec2Isabelle
  imports Main "HOL-Library.Sublist"
begin

section \<open>Strings and sequences as the Python source uses them\<close>

text \<open>
  A Python \<open>str\<close> is modelled as a \<open>string\<close> (a list of characters), Python's
  unbounded integers as \<open>int\<close>. A generator is modelled by the list of the values it yields
  when drained; an exception that escapes while it is drained makes the whole result
  \<open>None\<close> (\<open>format_node\<close> always drains the outermost generator with a join).
\<close>

text \<open>\<open>sep.join(xs)\<close> on a list of strings.\<close>

fun py_join :: "string \<Rightarrow> string list \<Rightarrow> string" where
  "py_join sep [] = []"
| "py_join sep [x] = x"
| "py_join sep (x # y # ys) = x @ sep @ py_join sep (y # ys)"

text \<open>\<open>s * n\<close> for a one-character string \<open>s\<close>: a non-positive count gives the empty string.\<close>

definition py_repeat :: "char \<Rightarrow> int \<Rightarrow> string" where
  "py_repeat c n = replicate (nat n) c"

text \<open>\<open>s.ljust(n)\<close>: pad with spaces on the right up to length \<open>n\<close>, never truncate.\<close>

definition py_ljust :: "string \<Rightarrow> int \<Rightarrow> string" where
  "py_ljust s n = s @ replicate (nat n - length s) CHR '' ''"

text \<open>
  \<open>s.split()\<close> without argument splits at runs of the characters for which
  \<open>str.isspace\<close> holds and drops empty pieces. Among the code points below 256 these are
  TAB, LF, VT, FF, CR, the separators FS, GS, RS, US, the space, NEL and the no-break space.
\<close>

definition py_isspace :: "char \<Rightarrow> bool" where
  "py_isspace c = (c \<in> set [CHR 0x09, CHR 0x0A, CHR 0x0B, CHR 0x0C, CHR 0x0D,
     CHR 0x1C, CHR 0x1D, CHR 0x1E, CHR 0x1F, CHR 0x20, CHR 0x85, CHR 0xA0])"

fun split_acc :: "string \<Rightarrow> string \<Rightarrow> string list" where
  "split_acc cur [] = (if cur = [] then [] else [cur])"
| "split_acc cur (c # cs) =
     (if py_isspace c then (if cur = [] then split_acc [] cs else cur # split_acc [] cs)
      else split_acc (cur @ [c]) cs)"

definition py_split :: "string \<Rightarrow> string list" where
  "py_split s = split_acc [] s"

text \<open>\<open>s.split(sep)\<close> for a one-character separator: always at least one piece.\<close>

fun split_on_acc :: "char \<Rightarrow> string \<Rightarrow> string \<Rightarrow> string list" where
  "split_on_acc sep cur [] = [cur]"
| "split_on_acc sep cur (c # cs) =
     (if c = sep then cur # split_on_acc sep [] cs else split_on_acc sep (cur @ [c]) cs)"

definition py_split_on :: "char \<Rightarrow> string \<Rightarrow> string list" where
  "py_split_on sep s = split_on_acc sep [] s"

text \<open>
  \<open>s.upper()\<close>. A character of a string is a code point below 256: the letters
  \<open>a\<close> to \<open>z\<close> and the lower-case letters from \<open>0xE0\<close> to \<open>0xFE\<close> (but not the division
  sign \<open>0xF7\<close>) have their upper-case form 32 places below, the sharp s \<open>0xDF\<close> becomes
  \<open>SS\<close>, every other character stays as it is. The upper-case forms of the micro sign
  \<open>0xB5\<close> and of \<open>0xFF\<close> are the code points \<open>0x39C\<close> and \<open>0x178\<close>, which are no
  characters of type \<open>char\<close>: \<open>upper_in_range\<close> is the test that a string has none of the two, and
  only on such strings is \<open>py_upper\<close> the result of \<open>s.upper()\<close>.
\<close>

definition lower_letters :: string where
  "lower_letters = ''abcdefghijklmnopqrstuvwxyz'' @
     [CHR 0xE0, CHR 0xE1, CHR 0xE2, CHR 0xE3, CHR 0xE4, CHR 0xE5, CHR 0xE6, CHR 0xE7,
      CHR 0xE8, CHR 0xE9, CHR 0xEA, CHR 0xEB, CHR 0xEC, CHR 0xED, CHR 0xEE, CHR 0xEF,
      CHR 0xF0, CHR 0xF1, CHR 0xF2, CHR 0xF3, CHR 0xF4, CHR 0xF5, CHR 0xF6, CHR 0xF8,
      CHR 0xF9, CHR 0xFA, CHR 0xFB, CHR 0xFC, CHR 0xFD, CHR 0xFE]"

definition upper_letters :: string where
  "upper_letters = ''ABCDEFGHIJKLMNOPQRSTUVWXYZ'' @
     [CHR 0xC0, CHR 0xC1, CHR 0xC2, CHR 0xC3, CHR 0xC4, CHR 0xC5, CHR 0xC6, CHR 0xC7,
      CHR 0xC8, CHR 0xC9, CHR 0xCA, CHR 0xCB, CHR 0xCC, CHR 0xCD, CHR 0xCE, CHR 0xCF,
      CHR 0xD0, CHR 0xD1, CHR 0xD2, CHR 0xD3, CHR 0xD4, CHR 0xD5, CHR 0xD6, CHR 0xD8,
      CHR 0xD9, CHR 0xDA, CHR 0xDB, CHR 0xDC, CHR 0xDD, CHR 0xDE]"

definition upper_char :: "char \<Rightarrow> string" where
  "upper_char c =
     (case map_of (zip lower_letters upper_letters) c of
        Some u \<Rightarrow> [u]
      | None \<Rightarrow> if c = CHR 0xDF then ''SS'' else [c])"

definition py_upper :: "string \<Rightarrow> string" where
  "py_upper s = concat (map upper_char s)"


section \<open>Constants\<close>

definition section_chars :: string where
  "section_chars = [CHR ''='', CHR ''-'', CHR ''^'', CHR 0x22, CHR ''~'', CHR ''+'']"

text \<open>\<open>string.whitespace\<close> is \<open>' \t\n\r\x0b\x0c'\<close>.\<close>

definition space_chars :: "char set" where
  "space_chars = set [CHR 0x20, CHR 0x09, CHR 0x0A, CHR 0x0D, CHR 0x0B, CHR 0x0C]"

definition pre_markup_break_chars :: "char set" where
  "pre_markup_break_chars = space_chars \<union>
     set [CHR ''-'', CHR '':'', CHR ''/'', CHR 0x27, CHR 0x22, CHR ''<'', CHR ''('', CHR ''['', CHR ''{'']"

definition post_markup_break_chars :: "char set" where
  "post_markup_break_chars = space_chars \<union>
     set [CHR ''-'', CHR ''.'', CHR '','', CHR '':'', CHR '';'', CHR ''!'', CHR ''?'', CHR 0x5C,
          CHR ''/'', CHR 0x27, CHR 0x22, CHR '')'', CHR '']'', CHR ''}'', CHR ''>'']"

text \<open>Indexing a string as Python does: a negative index counts from the end, an index
  out of range raises \<open>IndexError\<close> (\<open>None\<close>).\<close>

definition py_index :: "'a list \<Rightarrow> int \<Rightarrow> 'a option" where
  "py_index xs i =
     (let n = int (length xs); j = (if i < 0 then n + i else i)
      in if 0 \<le> j \<and> j < n then Some (xs ! nat j) else None)"

section \<open>Iterator helpers\<close>

fun intersperse :: "'a \<Rightarrow> 'a list \<Rightarrow> 'a list" where
  "intersperse val [] = []"
| "intersperse val [x] = [x]"
| "intersperse val (x # y # ys) = x # val # intersperse val (y # ys)"

text \<open>\<open>chain_intersperse\<close>: the separator is yielded before every sequence but the first,
  also before an empty one.\<close>

fun chain_intersperse :: "'a \<Rightarrow> 'a list list \<Rightarrow> 'a list" where
  "chain_intersperse val [] = []"
| "chain_intersperse val [x] = x"
| "chain_intersperse val (x # y # ys) = x @ val # chain_intersperse val (y # ys)"

definition enum_first :: "'a list \<Rightarrow> (bool \<times> 'a) list" where
  "enum_first it = zip (True # replicate (length it - 1) False) it"

definition prepend_if_any :: "'a \<Rightarrow> 'a list \<Rightarrow> 'a list" where
  "prepend_if_any f it = (case it of [] \<Rightarrow> [] | x # xs \<Rightarrow> f # x # xs)"

section \<open>The format context\<close>

record FormatContext =
  section_depth :: int
  width :: "int option"
  bullet :: "string option"
  colwidths :: "int list option"

definition indent :: "FormatContext \<Rightarrow> int \<Rightarrow> FormatContext" where
  "indent c n = (case width c of None \<Rightarrow> c | Some w \<Rightarrow> c\<lparr>width := Some (max 1 (w - n))\<rparr>)"

definition in_section :: "FormatContext \<Rightarrow> FormatContext" where
  "in_section c = c\<lparr>section_depth := section_depth c + 1\<rparr>"

definition with_width :: "FormatContext \<Rightarrow> int option \<Rightarrow> FormatContext" where
  "with_width c w = c\<lparr>width := w\<rparr>"

definition with_bullet :: "FormatContext \<Rightarrow> string \<Rightarrow> FormatContext" where
  "with_bullet c b = c\<lparr>bullet := Some b\<rparr>"

definition with_colwidths :: "FormatContext \<Rightarrow> int list \<Rightarrow> FormatContext" where
  "with_colwidths c cw = c\<lparr>colwidths := Some cw\<rparr>"

section \<open>Rendered items\<close>

text \<open>
  A formatter yields plain strings (\<open>Str\<close>) and \<open>inline_markup\<close> objects. Adding a string
  and an \<open>inline_markup\<close> object, or joining a sequence that holds one, raises
  \<open>TypeError\<close>; an \<open>inline_markup\<close> object is always true in a condition.
\<close>

datatype item = Str string | inline_markup string

fun truthy :: "item \<Rightarrow> bool" where
  "truthy (Str s) = (s \<noteq> [])"
| "truthy (inline_markup t) = True"

text \<open>\<open>s + l\<close> for a string \<open>s\<close>.\<close>

fun str_add :: "string \<Rightarrow> item \<Rightarrow> item option" where
  "str_add s (Str l) = Some (Str (s @ l))"
| "str_add s (inline_markup t) = None"

fun the_str :: "item \<Rightarrow> string option" where
  "the_str (Str s) = Some s"
| "the_str (inline_markup t) = None"

text \<open>\<open>sep.join(items)\<close>: \<open>TypeError\<close> unless every item is a string.\<close>

definition join_items :: "string \<Rightarrow> item list \<Rightarrow> string option" where
  "join_items sep its = map_option (py_join sep) (those (map the_str its))"

definition with_spaces :: "int \<Rightarrow> item list \<Rightarrow> item list option" where
  "with_spaces n lines =
     (let s = py_repeat CHR '' '' n
      in those (map (\<lambda>l. if truthy l then str_add s l else Some l) lines))"

section \<open>Splitting into words and wrapping\<close>

record word_info =
  word_text :: string
  in_markup :: bool
  start_space :: bool
  end_space :: bool
  start_punct :: bool
  end_punct :: bool

definition mk_word :: "string \<Rightarrow> bool \<Rightarrow> bool \<Rightarrow> bool \<Rightarrow> bool \<Rightarrow> bool \<Rightarrow> word_info" where
  "mk_word t m ss es sp ep =
     \<lparr>word_text = t, in_markup = m, start_space = ss, end_space = es, start_punct = sp, end_punct = ep\<rparr>"

text \<open>The four conditional updates of \<open>split_words\<close> on the first and the last word,
  in the order of the source.\<close>

definition set_first :: "(word_info \<Rightarrow> word_info) \<Rightarrow> word_info list \<Rightarrow> word_info list" where
  "set_first f ws = ws[0 := f (ws ! 0)]"

definition set_last :: "(word_info \<Rightarrow> word_info) \<Rightarrow> word_info list \<Rightarrow> word_info list" where
  "set_last f ws = ws[length ws - 1 := f (ws ! (length ws - 1))]"

definition split_words :: "item \<Rightarrow> word_info list" where
  "split_words it =
     (case it of
        Str s \<Rightarrow>
          (if s = [] then [mk_word s False False False False True]
           else
             let new_words = map (\<lambda>w. mk_word w False False False False False) (py_split s);
                 new_words = (if new_words = [] then [mk_word [] False True True True True]
                              else new_words);
                 new_words = (if hd s \<in> space_chars
                              then set_first (\<lambda>w. w\<lparr>start_space := True\<rparr>) new_words
                              else new_words);
                 new_words = (if last s \<in> space_chars
                              then set_last (\<lambda>w. w\<lparr>end_space := True\<rparr>) new_words
                              else new_words);
                 new_words = (if hd s \<in> post_markup_break_chars
                              then set_first (\<lambda>w. w\<lparr>start_punct := True\<rparr>) new_words
                              else new_words);
                 new_words = (if last s \<in> pre_markup_break_chars
                              then set_last (\<lambda>w. w\<lparr>end_punct := True\<rparr>) new_words
                              else new_words)
             in new_words)
      | inline_markup t \<Rightarrow> map (\<lambda>w. mk_word w True False False False False) (py_split t))"

text \<open>The escaped space \<open>\\ \<close> (a backslash and a space).\<close>

definition escaped_space :: string where
  "escaped_space = [CHR 0x5C, CHR 0x20]"

text \<open>One round of the merging loop: \<open>words\<close> is never empty there.\<close>

definition merge_step :: "word_info list \<Rightarrow> word_info \<Rightarrow> word_info list" where
  "merge_step words word =
     (let last_w = last words in
      if \<not> in_markup last_w \<and> in_markup word \<and> \<not> end_space last_w then
        (let join = (if end_punct last_w then [] else escaped_space)
         in words[length words - 1 :=
              mk_word (word_text last_w @ join @ word_text word) True False False False False])
      else if in_markup last_w \<and> \<not> in_markup word \<and> \<not> start_space word then
        (let join = (if start_punct word then [] else escaped_space)
         in words[length words - 1 :=
              mk_word (word_text last_w @ join @ word_text word) False False
                (end_space word) (start_punct word) (end_punct word)])
      else words @ [word])"

definition merge_words :: "word_info list \<Rightarrow> word_info list" where
  "merge_words raw_words = foldl merge_step [mk_word [] False True True True True] raw_words"

text \<open>The packing loop with its state: the buffer \<open>buf\<close> and the running length \<open>n\<close>.\<close>

fun pack :: "int \<Rightarrow> string list \<Rightarrow> int \<Rightarrow> string list \<Rightarrow> string list" where
  "pack wd buf n [] = (if buf \<noteq> [] then [py_join '' '' buf] else [])"
| "pack wd buf n (w # ws) =
     (let n2 = n + (if buf \<noteq> [] then 1 else 0) + int (length w)
      in if buf \<noteq> [] \<and> n2 > wd then py_join '' '' buf # pack wd [w] (int (length w)) ws
         else pack wd (buf @ [w]) n2 ws)"

definition tokens :: "item list \<Rightarrow> string list" where
  "tokens items =
     filter (\<lambda>t. t \<noteq> []) (map word_text (merge_words (concat (map split_words items))))"

definition wrap_text :: "int option \<Rightarrow> item list \<Rightarrow> string list" where
  "wrap_text wd items =
     (let words = tokens items
      in case wd of None \<Rightarrow> [py_join '' '' words] | Some k \<Rightarrow> pack k [] 0 words)"

section \<open>The document tree\<close>

text \<open>
  What the formatters read of a directive object: its name, its arguments, its options in
  their order (a value is \<open>None\<close> or a string) and its content lines.
\<close>

record directive_data =
  d_name :: string
  d_arguments :: "string list"
  d_options :: "(string \<times> string option) list"
  d_content :: "string list"

text \<open>
  What the formatters read of a node besides its children: the name of its class
  (\<open>type(node).__name__\<close>, a docutils node class or one of the two classes registered
  by the source, \<open>directive\<close> and \<open>role\<close>), the entries of \<open>node.attributes\<close> that a
  formatter looks up (an optional field is a key that may be missing; \<open>target\<close> says
  whether the preprocessing stored a target, \<open>anonymous\<close> is the truth value of
  \<open>attributes.get("anonymous")\<close>), the class name of \<open>node.parent\<close>, \<open>node.astext()\<close>
  of a text node and \<open>node.rawsource\<close>. \<open>isinstance\<close> is modelled by the class name.
\<close>

record node_info =
  kind :: string
  refuri :: "string option"
  target :: bool
  anonymous :: bool
  names :: "string list"
  classes :: "string list"
  uri :: "string option"
  colwidth :: "int option"
  directive :: "directive_data option"
  parent :: "string option"
  astext :: string
  rawsource :: string

datatype node = Node node_info "node list"

fun info :: "node \<Rightarrow> node_info" where
  "info (Node i cs) = i"

fun children :: "node \<Rightarrow> node list" where
  "children (Node i cs) = cs"

section \<open>The formatters\<close>

text \<open>The parts of the formatters that do not recurse, each on the rendered children
  (\<open>kids\<close>, one sequence of yielded items for each child).\<close>

text \<open>\<open>substitution_reference\<close>, \<open>emphasis\<close>, \<open>strong\<close>, \<open>literal\<close>, \<open>title_reference\<close>:
  the joined children between a pair of delimiters.\<close>

definition delimited :: "string \<Rightarrow> item list list \<Rightarrow> item list option" where
  "delimited d kids =
     map_option (\<lambda>s. [inline_markup (d @ s @ d)]) (join_items [] (concat kids))"

text \<open>\<open>list_item\<close> on the bullet of the context (read before anything is rendered;
  \<open>len(None)\<close> raises) and the children rendered at the indented context.\<close>

definition list_item :: "string \<Rightarrow> item list list \<Rightarrow> item list option" where
  "list_item bl kids =
     (let w = int (length bl) + 1;
          b = bl @ '' '';
          s = py_repeat CHR '' '' w
      in those (map (\<lambda>(first, c). str_add (if truthy c then (if first then b else s) else []) c)
                 (enum_first (chain_intersperse (Str []) kids))))"

definition term_fmt :: "item list list \<Rightarrow> item list option" where
  "term_fmt kids = Some [Str (py_join '' '' (wrap_text (Some 0) (concat kids)))]"

definition paragraph_fmt :: "FormatContext \<Rightarrow> item list list \<Rightarrow> item list option" where
  "paragraph_fmt ctx kids = Some (map Str (wrap_text (width ctx) (concat kids)))"

definition title :: "FormatContext \<Rightarrow> item list list \<Rightarrow> item list option" where
  "title ctx kids =
     (let t = py_join '' '' (wrap_text (Some 0) (concat kids))
      in case py_index section_chars (section_depth ctx - 1) of
           None \<Rightarrow> None
         | Some ch \<Rightarrow> Some [Str t, Str (py_repeat ch (int (length t)))])"

definition block_quote :: "item list list \<Rightarrow> item list option" where
  "block_quote kids = with_spaces 3 (chain_intersperse (Str []) kids)"

definition directive_fmt :: "node_info \<Rightarrow> item list option" where
  "directive_fmt i =
     (case directive i of
        None \<Rightarrow> None
      | Some d \<Rightarrow>
          Option.bind (with_spaces 3 (map Str (d_content d)))
            (\<lambda>body.
               Some (Str (py_join '' '' ((''.. '' @ d_name d @ ''::'') # d_arguments d))
                     # map (\<lambda>(k, v). case v of
                                None \<Rightarrow> Str (''   :'' @ k @ '':'')
                              | Some x \<Rightarrow> Str (''   :'' @ k @ '': '' @ x)) (d_options d)
                     @ prepend_if_any (Str []) body)))"

text \<open>A border line of a table: \<open>+\<close> at the column boundaries, \<open>c\<close> repeated to each
  column's width.\<close>

definition border :: "char \<Rightarrow> int list \<Rightarrow> string" where
  "border c cw = ''+'' @ py_join ''+'' (map (py_repeat c) cw) @ ''+''"

text \<open>\<open>itertools.zip_longest\<close> of a list of sequences, a missing value being \<open>None\<close>.\<close>

definition zip_longest :: "'a list list \<Rightarrow> 'a option list list" where
  "zip_longest xss =
     map (\<lambda>j. map (\<lambda>xs. if j < length xs then Some (xs ! j) else None) xss)
       [0 ..< foldr max (map length xss) 0]"

text \<open>One cell of a line of a row: \<open>" " + (line or "").ljust(w - 2) + " "\<close>; an
  \<open>inline_markup\<close> object has no \<open>ljust\<close>.\<close>

fun cell_segment :: "item option \<times> int \<Rightarrow> string option" where
  "cell_segment (None, w) = Some ('' '' @ py_ljust [] (w - 2) @ '' '')"
| "cell_segment (Some (Str l), w) = Some ('' '' @ py_ljust l (w - 2) @ '' '')"
| "cell_segment (Some (inline_markup t), w) = None"

definition row_line :: "int list \<Rightarrow> item option list \<Rightarrow> item option" where
  "row_line cw line_group =
     map_option (\<lambda>segs. Str (''|'' @ py_join ''|'' segs @ ''|''))
       (those (map cell_segment (zip line_group cw)))"

text \<open>\<open>row\<close> on the rendered cells (\<open>all_lines\<close>, one sequence of lines for each entry
  that has a column).\<close>

definition row :: "int list \<Rightarrow> item list list \<Rightarrow> item list option" where
  "row cw all_lines = those (map (row_line cw) (zip_longest all_lines))"

text \<open>\<open>tbody\<close> and \<open>thead\<close>, on the column widths of the context.\<close>

definition tbody :: "int list \<Rightarrow> item list list \<Rightarrow> item list option" where
  "tbody cw kids = Some (chain_intersperse (Str (border CHR ''-'' cw)) kids)"

text \<open>The test of \<open>reference\<close> for a reference name that needs no backquotes:
  \<open>re.match("^[-_.:+a-zA-Z]+$", title)\<close> (where \<open>$\<close> also matches before a final
  newline) and no match of \<open>[-_.:+][-_.:+]\<close> anywhere.\<close>

definition name_punct :: "char \<Rightarrow> bool" where
  "name_punct c = (c \<in> set ''-_.:+'')"

definition name_char :: "char \<Rightarrow> bool" where
  "name_char c =
     (let n = (of_char c :: nat)
      in name_punct c \<or> (97 \<le> n \<and> n \<le> 122) \<or> (65 \<le> n \<and> n \<le> 90))"

definition match_name :: "string \<Rightarrow> bool" where
  "match_name t =
     (let u = (if t \<noteq> [] \<and> last t = CHR 0x0A then butlast t else t)
      in u \<noteq> [] \<and> list_all name_char u)"

fun search_punct_pair :: "string \<Rightarrow> bool" where
  "search_punct_pair (a # b # cs) = ((name_punct a \<and> name_punct b) \<or> search_punct_pair (b # cs))"
| "search_punct_pair cs = False"

definition reference :: "node_info \<Rightarrow> string list \<Rightarrow> item list list \<Rightarrow> item list option" where
  "reference i child_kinds kids =
     (let t = py_join '' '' (wrap_text (Some 0) (concat kids));
          anon = (case refuri i of Some u \<Rightarrow> \<not> target i | None \<Rightarrow> anonymous i);
          suffix = (if anon then ''__'' else ''_'')
      in case refuri i of
           Some u \<Rightarrow>
             (if u = t \<or> u = ''mailto:'' @ t then Some [inline_markup t]
              else Some [inline_markup ([CHR 0x60] @ t @ '' <'' @ u @ ''>'' @ [CHR 0x60] @ suffix)])
         | None \<Rightarrow>
             (let is_single_word =
                    ((match_name t \<and> \<not> search_punct_pair t)
                     \<or> child_kinds = [''substitution_reference'']);
                  t2 = (if \<not> is_single_word then [CHR 0x60] @ t @ [CHR 0x60] else t)
              in Some [inline_markup (t2 @ suffix)]))"

definition target_fmt :: "node_info \<Rightarrow> item list option" where
  "target_fmt i =
     (let body = (case refuri i of Some u \<Rightarrow> '' '' @ u | None \<Rightarrow> [])
      in if parent i = Some ''document'' \<or> parent i = Some ''section'' then
           (case names i of
              [] \<Rightarrow> None
            | nm # _ \<Rightarrow> Some [Str (''.. _'' @ nm @ '':'' @ body)])
         else Some [])"

definition comment :: "item list list \<Rightarrow> item list option" where
  "comment kids =
     Option.bind (join_items [CHR 0x0A] (concat kids))
       (\<lambda>t. map_option (\<lambda>body. Str ''..'' # body)
               (with_spaces 3 (map Str (py_split_on (CHR 0x0A) t))))"

text \<open>\<open>note\<close>, \<open>warning\<close> and \<open>hint\<close>.\<close>

definition admonition :: "string \<Rightarrow> item list list \<Rightarrow> item list option" where
  "admonition nm kids =
     map_option (\<lambda>body. Str (''.. '' @ nm @ ''::'') # Str [] # body)
       (with_spaces 3 (chain_intersperse (Str []) kids))"

definition image_fmt :: "node_info \<Rightarrow> item list option" where
  "image_fmt i = (case uri i of None \<Rightarrow> None | Some u \<Rightarrow> Some [Str (''.. image:: '' @ u)])"

definition literal_block :: "node_info \<Rightarrow> item list list \<Rightarrow> item list option" where
  "literal_block i kids =
     (let lang = filter (\<lambda>c. c \<noteq> ''code'') (classes i)
      in Option.bind (join_items [] (concat kids))
           (\<lambda>t. map_option
                   (\<lambda>body. Str (''.. code::'' @ (case lang of [] \<Rightarrow> [] | l # _ \<Rightarrow> '' '' @ l))
                            # Str [] # body)
                   (with_spaces 3 (map Str (py_split_on (CHR 0x0A) t)))))"

text \<open>The line that \<open>fmt\<close> yields for a class name without a formatter.\<close>

definition placeholder :: "string \<Rightarrow> string" where
  "placeholder nm = [CHR 0x1B] @ ''[35m'' @ py_upper nm @ [CHR 0x1B] @ ''[m''"

section \<open>Concrete nodes and contexts\<close>


text \<open>
  The other names that \<open>getattr(Formatters, ...)\<close> finds, so that the default is not used:
  what the class statement itself sets (\<open>__module__\<close>, \<open>__dict__\<close>, \<open>__weakref__\<close>, \<open>__doc__\<close>)
  and what every class has from \<open>object\<close> and from \<open>type\<close> (the names of CPython 3.11).
  None of them is a formatter. Called with the node and the context they raise
  \<open>TypeError\<close>, or are no callable at all, or return \<open>NotImplemented\<close>, which raises
  \<open>TypeError\<close> as soon as the result is iterated over; \<open>__prepare__\<close> alone returns a
  value that can be iterated over, the empty dictionary, which holds no line.
\<close>

definition class_attributes :: "string list" where
  "class_attributes =
     [''__annotations__'', ''__base__'', ''__bases__'', ''__basicsize__'',
      ''__call__'', ''__class__'', ''__delattr__'', ''__dict__'', ''__dictoffset__'',
      ''__dir__'', ''__doc__'', ''__eq__'', ''__flags__'', ''__format__'', ''__ge__'',
      ''__getattribute__'', ''__getstate__'', ''__gt__'', ''__hash__'', ''__init__'',
      ''__init_subclass__'', ''__instancecheck__'', ''__itemsize__'', ''__le__'',
      ''__lt__'', ''__module__'', ''__mro__'', ''__name__'', ''__ne__'', ''__new__'',
      ''__or__'', ''__qualname__'', ''__reduce__'', ''__reduce_ex__'', ''__repr__'',
      ''__ror__'', ''__setattr__'', ''__sizeof__'', ''__str__'',
      ''__subclasscheck__'', ''__subclasses__'', ''__subclasshook__'',
      ''__text_signature__'', ''__weakref__'', ''__weakrefoffset__'', ''mro'']"

definition call_attribute :: "string \<Rightarrow> item list option" where
  "call_attribute k = (if k = ''__prepare__'' then Some [] else None)"

text \<open>An element of class \<open>k\<close> with no attribute set, a text node, and the context that
  \<open>format_node\<close> starts from.\<close>

definition element :: "string \<Rightarrow> node_info" where
  "element k = \<lparr>kind = k, refuri = None, target = False, anonymous = False, names = [],
     classes = [], uri = None, colwidth = None, directive = None, parent = None,
     astext = [], rawsource = []\<rparr>"

definition Text :: "string \<Rightarrow> node" where
  "Text s = Node ((element ''Text'')\<lparr>astext := s\<rparr>) []"

definition root_ctx :: "int option \<Rightarrow> FormatContext" where
  "root_ctx wd = \<lparr>section_depth = 0, width = wd, bullet = None, colwidths = None\<rparr>"

text \<open>The context that a \<open>bullet_list\<close> at the root hands to its items.\<close>

definition item_ctx :: FormatContext where
  "item_ctx = \<lparr>section_depth = 0, width = Some 72, bullet = Some ''- '', colwidths = None\<rparr>"

text \<open>An entry of a row that holds one paragraph of text, a column specification, and the
  context that a \<open>tgroup\<close> at the root hands to its rows.\<close>

definition entry_of :: "string \<Rightarrow> node" where
  "entry_of t = Node (element ''entry'') [Node (element ''paragraph'') [Text t]]"

definition colspec_of :: "int \<Rightarrow> node" where
  "colspec_of w = Node ((element ''colspec'')\<lparr>colwidth := Some w\<rparr>) []"

definition table_ctx :: "int list \<Rightarrow> FormatContext" where
  "table_ctx cw = \<lparr>section_depth = 0, width = Some 72, bullet = None, colwidths = Some cw\<rparr>"

text \<open>A line of the packing loop is a group of tokens that fits the width, or a single
  token; between two consecutive lines the first token of the second did not fit.\<close>

definition line_ok :: "int \<Rightarrow> string list \<Rightarrow> bool" where
  "line_ok wd g = (g \<noteq> [] \<and> (int (length (py_join '' '' g)) \<le> wd \<or> length g = 1))"

fun greedy :: "int \<Rightarrow> string list list \<Rightarrow> bool" where
  "greedy wd (g1 # g2 # gs) =
     (wd < int (length (py_join '' '' g1)) + 1 + int (length (hd g2)) \<and> greedy wd (g2 # gs))"
| "greedy wd gs = True"

section \<open>The dispatcher\<close>

text \<open>
  \<open>fmt\<close> looks the class name of the node up among the attributes of \<open>Formatters\<close>, calls
  what it finds and falls back to the placeholder when there is no such attribute.
  \<open>fmt_children(node, ctx)\<close> is \<open>those (map (\<lambda>c. fmt c ctx) cs)\<close>: the
  rendered children, or \<open>None\<close> as soon as one of them raises.
\<close>

function fmt :: "node \<Rightarrow> FormatContext \<Rightarrow> item list option" where
  "fmt (Node i cs) ctx =
     (let k = kind i in
      if k = ''substitution_reference'' then
        Option.bind (those (map (\<lambda>c. fmt c ctx) cs)) (delimited ''|'')
      else if k = ''emphasis'' then
        Option.bind (those (map (\<lambda>c. fmt c ctx) cs)) (delimited ''*'')
      else if k = ''strong'' then
        Option.bind (those (map (\<lambda>c. fmt c ctx) cs)) (delimited ''**'')
      else if k = ''literal'' then
        Option.bind (those (map (\<lambda>c. fmt c ctx) cs)) (delimited [CHR 0x60, CHR 0x60])
      else if k = ''title_reference'' then
        Option.bind (those (map (\<lambda>c. fmt c ctx) cs)) (delimited [CHR 0x60])
      else if k = ''bullet_list'' then
        map_option (chain_intersperse (Str []))
          (those (map (\<lambda>c. fmt c (with_bullet ctx ''- '')) cs))
      else if k = ''enumerated_list'' then
        map_option (chain_intersperse (Str []))
          (those (map (\<lambda>c. fmt c (with_bullet ctx ''#.'')) cs))
      else if k = ''list_item'' then
        (case bullet ctx of
           None \<Rightarrow> None
         | Some bl \<Rightarrow>
             Option.bind (those (map (\<lambda>c. fmt c (indent ctx (int (length bl) + 1))) cs))
               (list_item bl))
      else if k = ''term'' then
        Option.bind (those (map (\<lambda>c. fmt c ctx) cs)) term_fmt
      else if k = ''definition'' then
        map_option (chain_intersperse (Str [])) (those (map (\<lambda>c. fmt c ctx) cs))
      else if k = ''definition_list_item'' then
        map_option concat
          (those (map (\<lambda>c. if kind (info c) = ''term'' then fmt c ctx
                            else if kind (info c) = ''definition''
                              then Option.bind (fmt c (indent ctx 3)) (with_spaces 3)
                            else Some []) cs))
      else if k = ''definition_list'' then
        map_option (chain_intersperse (Str [])) (those (map (\<lambda>c. fmt c ctx) cs))
      else if k = ''paragraph'' then
        Option.bind (those (map (\<lambda>c. fmt c ctx) cs)) (paragraph_fmt ctx)
      else if k = ''title'' then
        Option.bind (those (map (\<lambda>c. fmt c ctx) cs)) (title ctx)
      else if k = ''block_quote'' then
        Option.bind (those (map (\<lambda>c. fmt c (indent ctx 3)) cs)) block_quote
      else if k = ''directive'' then directive_fmt i
      else if k = ''section'' then
        map_option (chain_intersperse (Str [])) (those (map (\<lambda>c. fmt c (in_section ctx)) cs))
      else if k = ''document'' then
        map_option (chain_intersperse (Str [])) (those (map (\<lambda>c. fmt c ctx) cs))
      else if k = ''row'' then
        (case colwidths ctx of
           None \<Rightarrow> None
         | Some cw \<Rightarrow>
             Option.bind
               (those (map (\<lambda>(entry, w).
                         map_option (chain_intersperse (Str []))
                           (those (map (\<lambda>c. fmt c (with_width ctx (Some (w - 2))))
                                    (children entry))))
                       (zip cs cw)))
               (row cw))
      else if k = ''tbody'' \<or> k = ''thead'' then
        (case colwidths ctx of
           None \<Rightarrow> None
         | Some cw \<Rightarrow> Option.bind (those (map (\<lambda>c. fmt c ctx) cs)) (tbody cw))
      else if k = ''tgroup'' then
        Option.bind (those (map (\<lambda>c. colwidth (info c))
                              (filter (\<lambda>c. kind (info c) = ''colspec'') cs)))
          (\<lambda>cw.
             map_option (\<lambda>parts. Str (border CHR ''-'' cw) # concat parts)
               (those (map (\<lambda>c.
                         if kind (info c) = ''colspec'' then Some []
                         else if kind (info c) = ''thead'' then
                           map_option (\<lambda>ls. ls @ [Str (border CHR ''='' cw)])
                             (fmt c (with_colwidths ctx cw))
                         else if kind (info c) = ''tbody'' then
                           map_option (\<lambda>ls. ls @ [Str (border CHR ''-'' cw)])
                             (fmt c (with_colwidths ctx cw))
                         else Some []) cs)))
      else if k = ''table'' then
        map_option (chain_intersperse (Str [])) (those (map (\<lambda>c. fmt c ctx) cs))
      else if k = ''Text'' then Some [Str (astext i)]
      else if k = ''reference'' then
        Option.bind (those (map (\<lambda>c. fmt c ctx) cs))
          (reference i (map (\<lambda>c. kind (info c)) cs))
      else if k = ''role'' then Some [inline_markup (rawsource i)]
      else if k = ''inline'' then
        map_option concat (those (map (\<lambda>c. fmt c ctx) cs))
      else if k = ''target'' then target_fmt i
      else if k = ''comment'' then
        Option.bind (those (map (\<lambda>c. fmt c ctx) cs)) comment
      else if k = ''note'' \<or> k = ''warning'' \<or> k = ''hint'' then
        Option.bind (those (map (\<lambda>c. fmt c (indent ctx 3)) cs)) (admonition k)
      else if k = ''image'' then image_fmt i
      else if k = ''literal_block'' then
        Option.bind (those (map (\<lambda>c. fmt c ctx) cs)) (literal_block i)
      else if k \<in> set class_attributes then call_attribute k
      else Some [Str (placeholder k)])"
  by pat_completeness auto

definition format_node :: "int option \<Rightarrow> node \<Rightarrow> string option" where
  "format_node wd nd =
     Option.bind
       (fmt nd \<lparr>section_depth = 0, width = wd, bullet = None, colwidths = None\<rparr>)
       (join_items [CHR 0x0A])"


section \<open>Termination of the dispatcher\<close>

lemma size_child: "c \<in> set cs \<Longrightarrow> size c \<le> size_list size cs"
  by (induction cs) auto

lemma size_grandchild:
  assumes "e \<in> set cs" and "c \<in> set (children e)"
  shows "size c \<le> size_list size cs"
proof -
  obtain ei ecs where e: "e = Node ei ecs" by (cases e)
  from assms(2) e have "size c \<le> size_list size ecs" by (simp add: size_child)
  then have "size c \<le> size e" using e by simp
  with size_child [OF assms(1)] show ?thesis by simp
qed

lemma size_cell:
  assumes "(e, w) \<in> set (zip cs cw)" and "c \<in> set (children e)"
  shows "size c \<le> size_list size cs"
  using size_grandchild [OF set_zip_leftD [OF assms(1)] assms(2)] .

termination fmt
proof (relation "measure (\<lambda>(n, c). size n)", goal_cases)
  case (20 i cs ctx k cw p e w c)
  then show ?case
    using size_cell [of e w cs cw c] by (simp add: less_Suc_eq_le)
qed (simp_all add: less_Suc_eq_le size_child)

declare fmt.simps [simp del]

section \<open>The format context\<close>

text \<open>
  C8: for every context \<open>c\<close> and every integer \<open>n\<close> (so for every non-negative one),
  \<open>c.indent(n)\<close> has width \<open>None\<close> when \<open>c.width\<close> is \<open>None\<close> and
  \<open>max(1, c.width - n)\<close> otherwise, and the section depth, the bullet and the column widths
  of \<open>c\<close>. The context is a value: \<open>c\<close> itself is what it was.
\<close>

theorem indent_spec:
  "width (indent c n) = (case width c of None \<Rightarrow> None | Some w \<Rightarrow> Some (max 1 (w - n)))
   \<and> section_depth (indent c n) = section_depth c
   \<and> bullet (indent c n) = bullet c
   \<and> colwidths (indent c n) = colwidths c"
  by (simp add: indent_def split: option.split)

section \<open>Indentation of blocks\<close>

text \<open>The steps that indent a block, on lines that are strings.\<close>

lemma those_map_Some: "those (map (\<lambda>x. Some (f x)) xs) = Some (map f xs)"
  by (induction xs) simp_all

lemma enum_first_map:
  "enum_first (map f xs) = map (\<lambda>(b, x). (b, f x)) (enum_first xs)"
  by (simp add: enum_first_def zip_map2)

lemma chain_intersperse_map:
  "chain_intersperse (f v) (map (map f) kids) = map f (chain_intersperse v kids)"
  by (induction v kids rule: chain_intersperse.induct) simp_all

lemma with_spaces_Str:
  "with_spaces n (map Str ls) =
     Some (map (\<lambda>l. Str (if l = [] then [] else replicate (nat n) CHR '' '' @ l)) ls)"
  by (induction ls) (simp_all add: with_spaces_def py_repeat_def Let_def)

lemma list_item_Str:
  "list_item bl (map (map Str) kids) =
     Some (map (\<lambda>(first, l). Str (if l = [] then []
                                  else (if first then bl @ '' '' else replicate (length bl + 1) CHR '' '') @ l))
             (enum_first (chain_intersperse [] kids)))"
proof -
  have "chain_intersperse (Str []) (map (map Str) kids) = map Str (chain_intersperse [] kids)"
    by (rule chain_intersperse_map)
  then show ?thesis
    by (simp add: list_item_def Let_def enum_first_map comp_def case_prod_unfold py_repeat_def
        nat_add_distrib those_map_Some)
qed

lemma block_quote_Str:
  "block_quote (map (map Str) kids) =
     Some (map (\<lambda>l. Str (if l = [] then [] else ''   '' @ l)) (chain_intersperse [] kids))"
  using with_spaces_Str [of 3 "chain_intersperse [] kids"] chain_intersperse_map [of Str "[]" kids]
  by (simp add: block_quote_def numeral_eq_Suc)

lemma admonition_Str:
  "admonition nm (map (map Str) kids) =
     Some (Str (''.. '' @ nm @ ''::'') # Str [] #
           map (\<lambda>l. Str (if l = [] then [] else ''   '' @ l)) (chain_intersperse [] kids))"
  using with_spaces_Str [of 3 "chain_intersperse [] kids"] chain_intersperse_map [of Str "[]" kids]
  by (simp add: admonition_def numeral_eq_Suc)

lemma join_items_Str: "join_items sep (map Str ls) = Some (py_join sep ls)"
  by (simp add: join_items_def comp_def those_map_Some)

lemma comment_Str:
  "comment (map (map Str) kids) =
     Some (Str ''..'' #
           map (\<lambda>l. Str (if l = [] then [] else ''   '' @ l))
             (py_split_on (CHR 0x0A) (py_join [CHR 0x0A] (concat kids))))"
  using with_spaces_Str [of 3 "py_split_on (CHR 0x0A) (py_join [CHR 0x0A] (concat kids))"]
    join_items_Str [of "[CHR 0x0A]" "concat kids"]
  by (simp add: comment_def numeral_eq_Suc map_concat)

lemma literal_block_Str:
  "literal_block i (map (map Str) kids) =
     Some (Str (''.. code::'' @ (case filter (\<lambda>c. c \<noteq> ''code'') (classes i) of
                                  [] \<Rightarrow> [] | l # _ \<Rightarrow> '' '' @ l)) # Str [] #
           map (\<lambda>l. Str (if l = [] then [] else ''   '' @ l))
             (py_split_on (CHR 0x0A) (py_join [] (concat kids))))"
  using with_spaces_Str [of 3 "py_split_on (CHR 0x0A) (py_join [] (concat kids))"]
    join_items_Str [of "[]" "concat kids"]
  by (simp add: literal_block_def numeral_eq_Suc map_concat Let_def)

lemma directive_Str:
  "directive_fmt (i\<lparr>directive := Some d\<rparr>) =
     Some (Str (py_join '' '' ((''.. '' @ d_name d @ ''::'') # d_arguments d))
           # map (\<lambda>(k, v). case v of
                      None \<Rightarrow> Str (''   :'' @ k @ '':'')
                    | Some x \<Rightarrow> Str (''   :'' @ k @ '': '' @ x)) (d_options d)
           @ prepend_if_any (Str [])
               (map (\<lambda>l. Str (if l = [] then [] else ''   '' @ l)) (d_content d)))"
proof -
  have r: "replicate (nat 3) CHR '' '' = ''   ''" by (simp add: numeral_eq_Suc)
  show ?thesis
    using with_spaces_Str [of 3 "d_content d"] unfolding r by (simp add: directive_fmt_def)
qed

lemma definition_body:
  "fmt (Node (i\<lparr>kind := ''definition_list_item''\<rparr>) [Node (j\<lparr>kind := ''definition''\<rparr>) cs]) ctx =
     Option.bind (fmt (Node (j\<lparr>kind := ''definition''\<rparr>) cs) (indent ctx 3)) (with_spaces 3)"
  by (subst fmt.simps) (simp add: Let_def split: option.split)

text \<open>
  C10, amended: every block-indentation step (used for list items, definitions, block quotes,
  admonition bodies, directive bodies, comments, and literal blocks) prefixes its spaces (for
  the first line of a list item: the bullet and a space) only to non-empty lines. An empty
  input line is passed through as the empty string, so indentation never turns an empty line
  into a line of whitespace; a non-empty line is prefixed whatever it holds, so a line that
  holds only whitespace stays one. The conjuncts are, in this order: \<open>with_spaces\<close> itself,
  the list item, the body of a definition (which goes through \<open>with_spaces\<close>), the block
  quote, the admonitions, the body of a directive, the comment and the literal block.
\<close>

theorem indentation_steps:
  "with_spaces n (map Str ls) =
     Some (map (\<lambda>l. Str (if l = [] then [] else replicate (nat n) CHR '' '' @ l)) ls)
   \<and> list_item bl (map (map Str) kids) =
     Some (map (\<lambda>(first, l). Str (if l = [] then []
                                  else (if first then bl @ '' '' else replicate (length bl + 1) CHR '' '') @ l))
             (enum_first (chain_intersperse [] kids)))
   \<and> fmt (Node (i\<lparr>kind := ''definition_list_item''\<rparr>) [Node (j\<lparr>kind := ''definition''\<rparr>) cs]) ctx =
     Option.bind (fmt (Node (j\<lparr>kind := ''definition''\<rparr>) cs) (indent ctx 3)) (with_spaces 3)
   \<and> block_quote (map (map Str) kids) =
     Some (map (\<lambda>l. Str (if l = [] then [] else ''   '' @ l)) (chain_intersperse [] kids))
   \<and> admonition nm (map (map Str) kids) =
     Some (Str (''.. '' @ nm @ ''::'') # Str [] #
           map (\<lambda>l. Str (if l = [] then [] else ''   '' @ l)) (chain_intersperse [] kids))
   \<and> directive_fmt (i\<lparr>directive := Some d\<rparr>) =
     Some (Str (py_join '' '' ((''.. '' @ d_name d @ ''::'') # d_arguments d))
           # map (\<lambda>(k, v). case v of
                      None \<Rightarrow> Str (''   :'' @ k @ '':'')
                    | Some x \<Rightarrow> Str (''   :'' @ k @ '': '' @ x)) (d_options d)
           @ prepend_if_any (Str [])
               (map (\<lambda>l. Str (if l = [] then [] else ''   '' @ l)) (d_content d)))
   \<and> comment (map (map Str) kids) =
     Some (Str ''..'' #
           map (\<lambda>l. Str (if l = [] then [] else ''   '' @ l))
             (py_split_on (CHR 0x0A) (py_join [CHR 0x0A] (concat kids))))
   \<and> literal_block i (map (map Str) kids) =
     Some (Str (''.. code::'' @ (case filter (\<lambda>c. c \<noteq> ''code'') (classes i) of
                                  [] \<Rightarrow> [] | l # _ \<Rightarrow> '' '' @ l)) # Str [] #
           map (\<lambda>l. Str (if l = [] then [] else ''   '' @ l))
             (py_split_on (CHR 0x0A) (py_join [] (concat kids))))"
  by (intro conjI with_spaces_Str list_item_Str definition_body block_quote_Str admonition_Str
      directive_Str comment_Str literal_block_Str)

text \<open>C10 as stated fails: a line of one space comes out as a line of four spaces.\<close>

theorem with_spaces_blank_line:
  "with_spaces 3 [Str '' ''] = Some [Str ''    '']"
  by (simp add: with_spaces_def py_repeat_def numeral_eq_Suc)

section \<open>The packing loop\<close>

lemma py_join_snoc:
  "py_join sep (xs @ [x]) = (if xs = [] then x else py_join sep xs @ sep @ x)"
  by (induction sep xs rule: py_join.induct) simp_all

lemma hd_concat_groups:
  "gs \<noteq> [] \<Longrightarrow> \<forall>g\<in>set gs. g \<noteq> [] \<Longrightarrow> hd (concat gs) = hd (hd gs)"
  by (cases gs) simp_all

text \<open>The loop keeps \<open>n\<close> equal to the length of the joined buffer, and the buffer a line
  that is allowed; it cuts the remaining tokens into groups, one for each line.\<close>

lemma pack_groups:
  assumes "n = int (length (py_join '' '' buf))" and "buf = [] \<or> line_ok wd buf"
  shows "\<exists>gs. pack wd buf n ws = map (py_join '' '') gs \<and> concat gs = buf @ ws
           \<and> list_all (line_ok wd) gs \<and> greedy wd gs"
  using assms
proof (induction ws arbitrary: buf n)
  case Nil
  show ?case
  proof (cases "buf = []")
    case True
    then show ?thesis by (intro exI [of _ "[]"]) simp
  next
    case False
    with Nil show ?thesis by (intro exI [of _ "[buf]"]) simp
  qed
next
  case (Cons w ws)
  let ?n2 = "n + (if buf \<noteq> [] then 1 else 0) + int (length w)"
  show ?case
  proof (cases "buf \<noteq> [] \<and> ?n2 > wd")
    case True
    then have ne_buf: "buf \<noteq> []" and over: "wd < n + 1 + int (length w)" by auto
    have "\<exists>gs. pack wd [w] (int (length w)) ws = map (py_join '' '') gs \<and> concat gs = [w] @ ws
           \<and> list_all (line_ok wd) gs \<and> greedy wd gs"
      by (rule Cons.IH) (simp_all add: line_ok_def)
    then obtain gs where gs: "pack wd [w] (int (length w)) ws = map (py_join '' '') gs"
      "concat gs = [w] @ ws" "list_all (line_ok wd) gs" "greedy wd gs"
      by blast
    from gs(2) have ne: "gs \<noteq> []" by auto
    from gs(3) have "\<forall>g\<in>set gs. g \<noteq> []" by (simp add: list_all_iff line_ok_def)
    with ne gs(2) have hd: "hd (hd gs) = w"
      using hd_concat_groups [of gs] by simp
    obtain g gs' where split: "gs = g # gs'" using ne by (cases gs) auto
    have "greedy wd (buf # gs)"
      using over gs(4) hd Cons.prems(1) split by simp
    moreover have "line_ok wd buf" using ne_buf Cons.prems(2) by simp
    ultimately show ?thesis
      using ne_buf over gs by (intro exI [of _ "buf # gs"]) (simp add: Let_def)
  next
    case False
    have "\<exists>gs. pack wd (buf @ [w]) ?n2 ws = map (py_join '' '') gs \<and> concat gs = (buf @ [w]) @ ws
           \<and> list_all (line_ok wd) gs \<and> greedy wd gs"
    proof (rule Cons.IH)
      show "?n2 = int (length (py_join '' '' (buf @ [w])))"
        using Cons.prems(1) by (simp add: py_join_snoc)
      show "buf @ [w] = [] \<or> line_ok wd (buf @ [w])"
        using False Cons.prems(1) by (auto simp: line_ok_def py_join_snoc)
    qed
    then show ?thesis using False by (auto simp: Let_def)
  qed
qed

lemma greedy_nth:
  "greedy wd gs \<Longrightarrow> Suc k < length gs \<Longrightarrow>
     wd < int (length (py_join '' '' (gs ! k))) + 1 + int (length (hd (gs ! Suc k)))"
proof (induction wd gs arbitrary: k rule: greedy.induct)
  case (1 wd g1 g2 gs)
  then show ?case by (cases k) simp_all
qed simp_all

lemma line_ok_cases:
  assumes "line_ok wd g"
  shows "g \<noteq> [] \<and> (int (length (py_join '' '' g)) \<le> wd \<or> (\<exists>t. g = [t] \<and> wd < int (length t)))"
proof (cases "int (length (py_join '' '' g)) \<le> wd")
  case True
  with assms show ?thesis by (simp add: line_ok_def)
next
  case False
  with assms have "length g = 1" by (simp add: line_ok_def)
  then obtain t where "g = [t]" by (cases g) auto
  with False show ?thesis by simp
qed

text \<open>
  C2: for every sequence of fragments and every width \<open>wd\<close> (so for every positive one), the
  lines that \<open>wrap_text\<close> yields are the tokens cut into non-empty groups, each group joined
  with single spaces: no token is split and none is lost. A line is at most \<open>wd\<close> long, or it
  is a single token that is itself longer than \<open>wd\<close>. A token starts a new line only when it
  did not fit: the line before it, one space and the token exceed \<open>wd\<close>.
\<close>

theorem wrap_text_width_bound:
  "\<exists>gs. wrap_text (Some wd) items = map (py_join '' '') gs
      \<and> concat gs = tokens items
      \<and> (\<forall>g\<in>set gs. g \<noteq> [] \<and>
            (int (length (py_join '' '' g)) \<le> wd \<or> (\<exists>t. g = [t] \<and> wd < int (length t))))
      \<and> (\<forall>k. Suc k < length gs \<longrightarrow>
            wd < int (length (py_join '' '' (gs ! k))) + 1 + int (length (hd (gs ! Suc k))))"
proof -
  have "\<exists>gs. pack wd [] 0 (tokens items) = map (py_join '' '') gs \<and> concat gs = [] @ tokens items
           \<and> list_all (line_ok wd) gs \<and> greedy wd gs"
    by (rule pack_groups) simp_all
  then obtain gs where gs: "pack wd [] 0 (tokens items) = map (py_join '' '') gs"
    "concat gs = tokens items" "list_all (line_ok wd) gs" "greedy wd gs"
    by auto
  have "wrap_text (Some wd) items = map (py_join '' '') gs"
    using gs(1) by (simp add: wrap_text_def)
  moreover have "\<forall>g\<in>set gs. g \<noteq> [] \<and>
      (int (length (py_join '' '' g)) \<le> wd \<or> (\<exists>t. g = [t] \<and> wd < int (length t)))"
    using gs(3) line_ok_cases by (auto simp: list_all_iff)
  moreover have "\<forall>k. Suc k < length gs \<longrightarrow>
      wd < int (length (py_join '' '' (gs ! k))) + 1 + int (length (hd (gs ! Suc k)))"
    using gs(4) greedy_nth by blast
  ultimately show ?thesis using gs(2) by blast
qed

theorem wrap_text_width_bound_witness:
  "wrap_text (Some 8) [Str ''This is '', inline_markup ''**bold**'', Str '' text.'']
     = [''This is'', ''**bold**'', ''text.'']
   \<and> (\<exists>gs. wrap_text (Some 8) [Str ''This is '', inline_markup ''**bold**'', Str '' text.'']
          = map (py_join '' '') gs
      \<and> concat gs = tokens [Str ''This is '', inline_markup ''**bold**'', Str '' text.'']
      \<and> (\<forall>g\<in>set gs. g \<noteq> [] \<and>
            (int (length (py_join '' '' g)) \<le> 8 \<or> (\<exists>t. g = [t] \<and> 8 < int (length t))))
      \<and> (\<forall>k. Suc k < length gs \<longrightarrow>
            8 < int (length (py_join '' '' (gs ! k))) + 1 + int (length (hd (gs ! Suc k)))))"
proof (rule conjI)
  show "wrap_text (Some 8) [Str ''This is '', inline_markup ''**bold**'', Str '' text.'']
     = [''This is'', ''**bold**'', ''text.'']"
    by (simp add: wrap_text_def tokens_def split_words_def py_split_def py_isspace_def
        merge_words_def merge_step_def mk_word_def space_chars_def post_markup_break_chars_def
        pre_markup_break_chars_def set_first_def set_last_def escaped_space_def)
  show "\<exists>gs. wrap_text (Some 8) [Str ''This is '', inline_markup ''**bold**'', Str '' text.'']
          = map (py_join '' '') gs
      \<and> concat gs = tokens [Str ''This is '', inline_markup ''**bold**'', Str '' text.'']
      \<and> (\<forall>g\<in>set gs. g \<noteq> [] \<and>
            (int (length (py_join '' '' g)) \<le> 8 \<or> (\<exists>t. g = [t] \<and> 8 < int (length t))))
      \<and> (\<forall>k. Suc k < length gs \<longrightarrow>
            8 < int (length (py_join '' '' (gs ! k))) + 1 + int (length (hd (gs ! Suc k))))"
    by (rule wrap_text_width_bound)
qed

section \<open>Class names without a formatter\<close>




section \<open>Words and tokens\<close>

text \<open>What \<open>str.split()\<close> yields has no whitespace and no empty word; the flags that
  \<open>split_words\<close> sets leave the text of the words alone; merging joins texts with nothing or
  with the escaped space, so no token holds a line break. At width 0 every token is a line.\<close>

lemma split_acc_chars:
  "list_all (\<lambda>c. \<not> py_isspace c) cur \<Longrightarrow>
   list_all (list_all (\<lambda>c. \<not> py_isspace c)) (split_acc cur s)"
  by (induction s arbitrary: cur) simp_all

lemma py_split_no_space: "w \<in> set (py_split s) \<Longrightarrow> c \<in> set w \<Longrightarrow> \<not> py_isspace c"
  using split_acc_chars [of "[]" s] by (auto simp: py_split_def list_all_iff)

lemma split_acc_nonempty: "list_all (\<lambda>w. w \<noteq> []) (split_acc cur s)"
  by (induction s arbitrary: cur) simp_all

lemma py_split_nonempty: "w \<in> set (py_split s) \<Longrightarrow> w \<noteq> []"
  using split_acc_nonempty [of "[]" s] by (auto simp: py_split_def list_all_iff)

lemma map_update_same: "map f (xs[k := y]) = map f xs" if "f y = f (xs ! k)"
proof (cases "k < length xs")
  case True
  then show ?thesis using that by (simp add: map_update list_update_same_conv)
next
  case False
  then show ?thesis by (simp add: list_update_beyond)
qed

lemma texts_set_first: "(\<And>w. word_text (f w) = word_text w) \<Longrightarrow>
    map word_text (set_first f ws) = map word_text ws"
  by (simp add: set_first_def map_update_same)

lemma texts_set_last: "(\<And>w. word_text (f w) = word_text w) \<Longrightarrow>
    map word_text (set_last f ws) = map word_text ws"
  by (simp add: set_last_def map_update_same)

lemma split_words_texts:
  "map word_text (split_words (Str s)) = (if py_split s = [] then [[]] else py_split s)"
  "map word_text (split_words (inline_markup t)) = py_split t"
  by (simp_all add: split_words_def Let_def texts_set_first texts_set_last mk_word_def comp_def py_split_def)

lemma pack_zero_one: "0 \<le> n \<Longrightarrow> pack 0 [b] n ws = b # ws"
  by (induction ws arbitrary: b n) simp_all

lemma pack_zero: "pack 0 [] 0 ws = ws"
  by (cases ws) (simp_all add: pack_zero_one)

lemma wrap_text_zero: "wrap_text (Some 0) items = tokens items"
  by (simp add: wrap_text_def pack_zero)


lemma merge_step_nonempty: "words \<noteq> [] \<Longrightarrow> merge_step words word \<noteq> []"
  by (simp add: merge_step_def Let_def)

lemma merge_step_no_newline:
  assumes "words \<noteq> []" and "\<forall>w\<in>set words. CHR 0x0A \<notin> set (word_text w)"
    and "CHR 0x0A \<notin> set (word_text word)"
  shows "\<forall>w\<in>set (merge_step words word). CHR 0x0A \<notin> set (word_text w)"
proof -
  let ?l = "last words"
  have l: "CHR 0x0A \<notin> set (word_text ?l)" using assms(1,2) by simp
  have upd: "\<forall>w\<in>set (words[length words - 1 := y]). CHR 0x0A \<notin> set (word_text w)"
    if "CHR 0x0A \<notin> set (word_text y)" for y
    using that assms(2) set_update_subset_insert [of words "length words - 1" y] by auto
  have j: "CHR 0x0A \<notin> set (if b then [] else escaped_space)" for b
    by (simp add: escaped_space_def)
  have new: "CHR 0x0A \<notin> set (word_text (mk_word (word_text ?l @ (if b then [] else escaped_space)
      @ word_text word) m ss es sp ep))" for b m ss es sp ep
    using l j [of b] assms(3) by (simp add: mk_word_def)
  show ?thesis
  proof (cases "\<not> in_markup ?l \<and> in_markup word \<and> \<not> end_space ?l")
    case True
    then have "merge_step words word = words[length words - 1 :=
        mk_word (word_text ?l @ (if end_punct ?l then [] else escaped_space) @ word_text word)
          True False False False False]"
      by (simp add: merge_step_def Let_def)
    then show ?thesis using upd [OF new] by simp
  next
    case False
    note first = this
    show ?thesis
    proof (cases "in_markup ?l \<and> \<not> in_markup word \<and> \<not> start_space word")
      case True
      with first have "merge_step words word = words[length words - 1 :=
          mk_word (word_text ?l @ (if start_punct word then [] else escaped_space) @ word_text word)
            False False (end_space word) (start_punct word) (end_punct word)]"
        by (simp add: merge_step_def Let_def)
      then show ?thesis using upd [OF new] by simp
    next
      case False
      have "merge_step words word = words @ [word]"
        by (simp only: merge_step_def Let_def first False if_False)
      then show ?thesis using assms(2,3) by simp
    qed
  qed
qed

lemma foldl_merge_no_newline:
  "ws \<noteq> [] \<Longrightarrow> \<forall>w\<in>set ws. CHR 0x0A \<notin> set (word_text w) \<Longrightarrow>
   \<forall>w\<in>set raw. CHR 0x0A \<notin> set (word_text w) \<Longrightarrow>
   \<forall>w\<in>set (foldl merge_step ws raw). CHR 0x0A \<notin> set (word_text w)"
proof (induction raw arbitrary: ws)
  case Nil
  then show ?case by simp
next
  case (Cons r raw)
  have "\<forall>w\<in>set (foldl merge_step (merge_step ws r) raw). CHR 0x0A \<notin> set (word_text w)"
  proof (rule Cons.IH)
    show "merge_step ws r \<noteq> []" using Cons.prems(1) by (rule merge_step_nonempty)
    show "\<forall>w\<in>set (merge_step ws r). CHR 0x0A \<notin> set (word_text w)"
      using Cons.prems by (intro merge_step_no_newline) simp_all
    show "\<forall>w\<in>set raw. CHR 0x0A \<notin> set (word_text w)" using Cons.prems(3) by simp
  qed
  then show ?case by simp
qed

lemma split_words_no_newline:
  "w \<in> set (split_words it) \<Longrightarrow> CHR 0x0A \<notin> set (word_text w)"
proof -
  assume w: "w \<in> set (split_words it)"
  have sp: "py_isspace (CHR 0x0A)" by (simp add: py_isspace_def)
  have "\<forall>t\<in>set (map word_text (split_words it)). CHR 0x0A \<notin> set t"
  proof (cases it)
    case (Str s)
    then show ?thesis using py_split_no_space [of _ s "CHR 0x0A"] sp
      by (auto simp: split_words_texts)
  next
    case (inline_markup t)
    then show ?thesis using py_split_no_space [of _ t "CHR 0x0A"] sp
      by (auto simp: split_words_texts)
  qed
  with w show ?thesis by simp
qed

lemma tokens_no_newline: "t \<in> set (tokens items) \<Longrightarrow> CHR 0x0A \<notin> set t"
proof -
  assume t: "t \<in> set (tokens items)"
  have "\<forall>w\<in>set (foldl merge_step [mk_word [] False True True True True]
      (concat (map split_words items))). CHR 0x0A \<notin> set (word_text w)"
    by (rule foldl_merge_no_newline) (auto simp: mk_word_def split_words_no_newline)
  with t show ?thesis by (auto simp: tokens_def merge_words_def)
qed

lemma py_join_chars: "c \<in> set (py_join sep xs) \<Longrightarrow> c \<in> set sep \<or> (\<exists>x\<in>set xs. c \<in> set x)"
  by (induction sep xs rule: py_join.induct) auto

lemma title_text_one_line: "CHR 0x0A \<notin> set (py_join '' '' (wrap_text (Some 0) items))"
  using py_join_chars [of "CHR 0x0A" "'' ''" "tokens items"] tokens_no_newline [of _ items]
  by (auto simp: wrap_text_zero)

section \<open>References and titles\<close>

lemma fmt_Text: "kind i = ''Text'' \<Longrightarrow> fmt (Node i cs) ctx = Some [Str (astext i)]"
  by (simp add: fmt.simps)

lemma fmt_title_kids:
  "kind i = ''title'' \<Longrightarrow>
   fmt (Node i cs) ctx = Option.bind (those (map (\<lambda>c. fmt c ctx) cs)) (title ctx)"
  by (simp add: fmt.simps)

lemma fmt_reference_kids:
  "kind i = ''reference'' \<Longrightarrow>
   fmt (Node i cs) ctx =
     Option.bind (those (map (\<lambda>c. fmt c ctx) cs)) (reference i (map (\<lambda>c. kind (info c)) cs))"
  by (simp add: fmt.simps)

lemma tokens_one_word:
  "tokens [Str ''example''] = [''example'']"
  "tokens [Str ''http://example''] = [''http://example'']"
  "tokens [Str ''Example''] = [''Example'']"
  by (simp_all add: tokens_def split_words_def py_split_def py_isspace_def merge_words_def
      merge_step_def mk_word_def space_chars_def post_markup_break_chars_def
      pre_markup_break_chars_def set_first_def set_last_def)

text \<open>
  C3, amended: for every reference node carrying a URI, whose children render, the title
  being their text joined at width 0: rendering yields the bare title (the standalone
  hyperlink shorthand, no angle-bracket URI) exactly when the URI textually equals the title
  or equals \<open>mailto:\<close> plus the title; otherwise the rendering is the title, a space and the
  URI in angle brackets, between backquotes, followed by \<open>_\<close> when the node has a \<open>target\<close>
  attribute and by \<open>__\<close> when it has none.
\<close>

theorem reference_with_uri:
  "kind i = ''reference'' \<Longrightarrow> refuri i = Some u \<Longrightarrow>
   those (map (\<lambda>c. fmt c ctx) cs) = Some kids \<Longrightarrow>
   fmt (Node i cs) ctx =
     Some [inline_markup
       (let t = py_join '' '' (wrap_text (Some 0) (concat kids))
        in if u = t \<or> u = ''mailto:'' @ t then t
           else [CHR 0x60] @ t @ '' <'' @ u @ ''>'' @ [CHR 0x60] @ (if target i then ''_'' else ''__''))]"
  by (simp add: fmt_reference_kids reference_def Let_def)

theorem reference_with_uri_witness:
  "fmt (Node ((element ''reference'')\<lparr>refuri := Some ''http://example''\<rparr>) [Text ''http://example''])
     (root_ctx (Some 72)) = Some [inline_markup ''http://example'']"
  using reference_with_uri [of "(element ''reference'')\<lparr>refuri := Some ''http://example''\<rparr>"
      "''http://example''" "root_ctx (Some 72)" "[Text ''http://example'']"
      "[[Str ''http://example'']]"]
  by (simp add: fmt_Text element_def Text_def wrap_text_zero tokens_one_word)

text \<open>C3 as stated fails on its own example: the URI \<open>http://example\<close> is not the title
  \<open>example\<close>, so the reference is rendered with the URI in angle brackets.\<close>

theorem reference_example_not_bare:
  "fmt (Node ((element ''reference'')\<lparr>refuri := Some ''http://example''\<rparr>) [Text ''example''])
     (root_ctx (Some 72)) =
   Some [inline_markup ([CHR 0x60] @ ''example <http://example>'' @ [CHR 0x60] @ ''__'')]"
  by (simp add: fmt_reference_kids fmt_Text element_def Text_def reference_def wrap_text_zero
      tokens_one_word)

text \<open>
  C4, amended: for every title node rendered at a section depth \<open>d\<close> from 1 to 6, whose
  children render, the output is exactly two lines: the title text on one line (it holds no
  line break), followed by an underline of exactly the same length, whose character is the one
  at position \<open>d - 1\<close> of the fixed 6-character sequence.
\<close>

theorem title_two_lines:
  "kind i = ''title'' \<Longrightarrow> 1 \<le> section_depth ctx \<Longrightarrow> section_depth ctx \<le> 6 \<Longrightarrow>
   those (map (\<lambda>c. fmt c ctx) cs) = Some kids \<Longrightarrow>
   (let t = py_join '' '' (wrap_text (Some 0) (concat kids))
    in fmt (Node i cs) ctx =
         Some [Str t, Str (replicate (length t) (section_chars ! nat (section_depth ctx - 1)))]
       \<and> CHR 0x0A \<notin> set t)"
  using title_text_one_line [of "concat kids"]
  by (simp add: fmt_title_kids title_def py_index_def section_chars_def Let_def py_repeat_def)

theorem title_two_lines_witness:
  "fmt (Node (element ''title'') [Text ''Example''])
     ((root_ctx (Some 72))\<lparr>section_depth := 2\<rparr>) = Some [Str ''Example'', Str ''-------'']"
  using title_two_lines [of "element ''title''" "(root_ctx (Some 72))\<lparr>section_depth := 2\<rparr>"
      "[Text ''Example'']" "[[Str ''Example'']]"]
  by (simp add: fmt_Text element_def Text_def root_ctx_def wrap_text_zero tokens_one_word
      section_chars_def Let_def)

text \<open>C4 as stated fails beyond depth 6: the character is \<open>section_chars[d - 1]\<close>, with no
  remainder taken, and at depth 7 the index is out of range.\<close>

theorem title_depth_seven_raises:
  "fmt (Node (element ''title'') [Text ''Example''])
     ((root_ctx (Some 72))\<lparr>section_depth := 7\<rparr>) = None"
  by (simp add: fmt_title_kids fmt_Text element_def Text_def root_ctx_def title_def py_index_def
      section_chars_def)

section \<open>List items\<close>

lemma enum_first_Cons:
  "enum_first (x # xs) = (True, x) # map (\<lambda>y. (False, y)) xs"
  by (simp add: enum_first_def zip_replicate1 map_idI)

lemma fmt_paragraph_kids:
  "kind i = ''paragraph'' \<Longrightarrow>
   fmt (Node i cs) ctx = Option.bind (those (map (\<lambda>c. fmt c ctx) cs)) (paragraph_fmt ctx)"
  by (simp add: fmt.simps)

lemma fmt_list_item_kids:
  "kind i = ''list_item'' \<Longrightarrow> bullet ctx = Some bl \<Longrightarrow>
   fmt (Node i cs) ctx =
     Option.bind (those (map (\<lambda>c. fmt c (indent ctx (int (length bl) + 1))) cs)) (list_item bl)"
  by (simp add: fmt.simps)

lemma fmt_target: "kind i = ''target'' \<Longrightarrow> fmt (Node i cs) ctx = target_fmt i"
  by (simp add: fmt.simps)

lemma tokens_items:
  "tokens [Str ''one''] = [''one'']"
  "tokens [Str ''two''] = [''two'']"
  by (simp_all add: tokens_def split_words_def py_split_def py_isspace_def merge_words_def
      merge_step_def mk_word_def space_chars_def post_markup_break_chars_def
      pre_markup_break_chars_def set_first_def set_last_def)

lemma para_one:
  "fmt (Node (element ''paragraph'') [Text ''one'']) (indent item_ctx 3) = Some [Str ''one'']"
  "fmt (Node (element ''paragraph'') [Text ''two'']) (indent item_ctx 3) = Some [Str ''two'']"
  by (simp_all add: fmt_paragraph_kids fmt_Text element_def Text_def item_ctx_def indent_def
      paragraph_fmt_def wrap_text_def tokens_items)

text \<open>
  C5, amended: for every list item rendered with bullet \<open>b\<close>, whose children render to
  lines that are strings: when the first output line is non-empty it is prefixed with \<open>b\<close>
  followed by a space, and every non-empty continuation line of the item is indented by
  exactly \<open>len(b) + 1\<close> spaces; an empty continuation line stays empty.
\<close>

theorem list_item_bullet:
  "kind i = ''list_item'' \<Longrightarrow> bullet ctx = Some bl \<Longrightarrow>
   those (map (\<lambda>c. fmt c (indent ctx (int (length bl) + 1))) cs) = Some (map (map Str) kids) \<Longrightarrow>
   chain_intersperse [] kids = l # ls \<Longrightarrow> l \<noteq> [] \<Longrightarrow>
   fmt (Node i cs) ctx =
     Some (Str (bl @ '' '' @ l) #
           map (\<lambda>c. Str (if c = [] then [] else replicate (length bl + 1) CHR '' '' @ c)) ls)"
  by (simp add: fmt_list_item_kids list_item_Str enum_first_Cons comp_def)

theorem list_item_bullet_witness:
  "fmt (Node (element ''list_item'') [Node (element ''paragraph'') [Text ''one''],
                                       Node (element ''paragraph'') [Text ''two'']]) item_ctx =
     Some [Str ''-  one'', Str [], Str ''   two'']"
  using list_item_bullet [of "element ''list_item''" item_ctx "''- ''"
      "[Node (element ''paragraph'') [Text ''one''], Node (element ''paragraph'') [Text ''two'']]"
      "[[''one''], [''two'']]" "''one''" "[[], ''two'']"]
  by (simp add: para_one) (simp add: element_def item_ctx_def)

text \<open>C5 as stated fails: the empty line between two paragraphs of an item is a
  continuation line with no indentation; and when the first child of an item renders no line
  (a target inside the item), the first non-empty line gets the spaces, not the bullet.\<close>

theorem list_item_lines_not_all_prefixed:
  "fmt (Node (element ''list_item'') [Node (element ''paragraph'') [Text ''one''],
                                       Node (element ''paragraph'') [Text ''two'']]) item_ctx =
     Some [Str ''-  one'', Str [], Str ''   two'']
   \<and> fmt (Node (element ''list_item'') [Node (element ''target'') [],
                                         Node (element ''paragraph'') [Text ''one'']]) item_ctx =
     Some [Str [], Str ''   one'']"
proof -
  have k: "kind (element ''list_item'') = ''list_item''" by (simp add: element_def)
  have b: "bullet item_ctx = Some ''- ''" by (simp add: item_ctx_def)
  have t: "fmt (Node (element ''target'') []) (indent item_ctx 3) = Some []"
    by (simp add: fmt_target target_fmt_def element_def)
  show ?thesis
    by (simp add: fmt_list_item_kids [OF k b] para_one t list_item_def enum_first_def
        py_repeat_def numeral_eq_Suc)
qed

section \<open>Merging\<close>

lemma split_acc_empty: "split_acc cur s = [] \<longleftrightarrow> cur = [] \<and> (\<forall>c\<in>set s. py_isspace c)"
  by (induction s arbitrary: cur) auto

lemma set_first_nonempty: "set_first f ws = [] \<longleftrightarrow> ws = []"
  by (simp add: set_first_def)

lemma set_last_nonempty: "set_last f ws = [] \<longleftrightarrow> ws = []"
  by (simp add: set_last_def)

lemma last_set_last: "ws \<noteq> [] \<Longrightarrow> last (set_last f ws) = f (last ws)"
  by (simp add: set_last_def last_list_update last_conv_nth)

lemma hd_set_first: "ws \<noteq> [] \<Longrightarrow> hd (set_first f ws) = f (hd ws)"
  by (cases ws) (simp_all add: set_first_def)

lemma flag_last_set_first:
  assumes "ws \<noteq> []" and "\<And>w. g (f w) = g w"
  shows "g (last (set_first f ws)) = g (last ws)"
proof -
  have "map g (set_first f ws) = map g ws"
    using assms(2) by (simp add: set_first_def map_update_same)
  moreover have "set_first f ws \<noteq> []" using assms(1) by (simp add: set_first_nonempty)
  ultimately show ?thesis using assms(1) by (metis last_map)
qed

lemma flag_hd_set_last:
  assumes "ws \<noteq> []" and "\<And>w. g (f w) = g w"
  shows "g (hd (set_last f ws)) = g (hd ws)"
proof -
  have "map g (set_last f ws) = map g ws"
    using assms(2) by (simp add: set_last_def map_update_same)
  moreover have "set_last f ws \<noteq> []" using assms(1) by (simp add: set_last_nonempty)
  ultimately show ?thesis using assms(1) by (metis hd_map)
qed

lemma flags_set_first: "(\<And>w. g (f w) = g w) \<Longrightarrow> map g (set_first f ws) = map g ws"
  by (simp add: set_first_def map_update_same)

lemma flags_set_last: "(\<And>w. g (f w) = g w) \<Longrightarrow> map g (set_last f ws) = map g ws"
  by (simp add: set_last_def map_update_same)

lemma split_words_Str_nonempty: "split_words (Str s) \<noteq> []"
  by (simp add: split_words_def Let_def set_first_nonempty set_last_nonempty)

lemma plain_set_first:
  assumes "\<And>w. in_markup (f w) = in_markup w"
  shows "(\<forall>w\<in>set (set_first f ws). \<not> in_markup w) = (\<forall>w\<in>set ws. \<not> in_markup w)"
proof -
  have "(\<forall>w\<in>set xs. \<not> in_markup w) = (\<forall>b\<in>set (map in_markup xs). \<not> b)" for xs
    by simp
  then show ?thesis using flags_set_first [of in_markup f ws] assms by metis
qed

lemma plain_set_last:
  assumes "\<And>w. in_markup (f w) = in_markup w"
  shows "(\<forall>w\<in>set (set_last f ws). \<not> in_markup w) = (\<forall>w\<in>set ws. \<not> in_markup w)"
proof -
  have "(\<forall>w\<in>set xs. \<not> in_markup w) = (\<forall>b\<in>set (map in_markup xs). \<not> b)" for xs
    by simp
  then show ?thesis using flags_set_last [of in_markup f ws] assms by metis
qed

lemma split_words_Str_plain: "\<forall>w\<in>set (split_words (Str s)). \<not> in_markup w"
  by (simp add: split_words_def Let_def plain_set_first plain_set_last mk_word_def)

lemma split_words_markup: "w \<in> set (split_words (inline_markup m)) \<Longrightarrow> in_markup w"
  by (auto simp: split_words_def mk_word_def)

text \<open>The flags at the end of the last word and at the start of the first word of a
  string that has a word.\<close>

lemma split_words_last_flags:
  assumes "py_split s \<noteq> []"
  shows "end_space (last (split_words (Str s))) = (last s \<in> space_chars)"
    and "end_punct (last (split_words (Str s))) = (last s \<in> pre_markup_break_chars)"
proof -
  have s: "s \<noteq> []" using assms by (auto simp: py_split_def)
  let ?ws = "map (\<lambda>w. mk_word w False False False False False) (py_split s)"
  have ne: "?ws \<noteq> []" using assms by simp
  have l: "end_space (last ?ws) = False" "end_punct (last ?ws) = False"
    using assms by (simp_all add: last_map mk_word_def)
  show "end_space (last (split_words (Str s))) = (last s \<in> space_chars)"
    using s ne l
    by (simp add: split_words_def Let_def last_set_last flag_last_set_first set_first_nonempty
        set_last_nonempty)
  show "end_punct (last (split_words (Str s))) = (last s \<in> pre_markup_break_chars)"
    using s ne l
    by (simp add: split_words_def Let_def last_set_last flag_last_set_first set_first_nonempty
        set_last_nonempty)
qed

lemma split_words_first_flags:
  assumes "py_split s \<noteq> []"
  shows "start_space (hd (split_words (Str s))) = (hd s \<in> space_chars)"
    and "start_punct (hd (split_words (Str s))) = (hd s \<in> post_markup_break_chars)"
proof -
  have s: "s \<noteq> []" using assms by (auto simp: py_split_def)
  let ?ws = "map (\<lambda>w. mk_word w False False False False False) (py_split s)"
  have ne: "?ws \<noteq> []" using assms by simp
  have l: "start_space (hd ?ws) = False" "start_punct (hd ?ws) = False"
    using assms by (simp_all add: hd_map mk_word_def)
  show "start_space (hd (split_words (Str s))) = (hd s \<in> space_chars)"
    using s ne l
    by (simp add: split_words_def Let_def hd_set_first flag_hd_set_last set_first_nonempty
        set_last_nonempty)
  show "start_punct (hd (split_words (Str s))) = (hd s \<in> post_markup_break_chars)"
    using s ne l
    by (simp add: split_words_def Let_def hd_set_first flag_hd_set_last set_first_nonempty
        set_last_nonempty)
qed


lemma update_last: "xs \<noteq> [] \<Longrightarrow> xs[length xs - Suc 0 := y] = butlast xs @ [y]"
  by (cases xs rule: rev_cases) simp_all

lemma foldl_merge_nonempty: "ws \<noteq> [] \<Longrightarrow> foldl merge_step ws raw \<noteq> []"
  by (induction raw arbitrary: ws) (simp_all add: merge_step_nonempty)

text \<open>A word outside markup after markup without space between them, and a markup word
  after a word outside markup without space between them: the two branches that merge.\<close>

lemma merge_plain_after_markup:
  assumes "words \<noteq> []" and "in_markup (last words)" and "\<not> in_markup w" and "\<not> start_space w"
  shows "merge_step words w = butlast words @
    [mk_word (word_text (last words) @ (if start_punct w then [] else escaped_space) @ word_text w)
       False False (end_space w) (start_punct w) (end_punct w)]"
proof -
  have "merge_step words w = words[length words - 1 :=
    mk_word (word_text (last words) @ (if start_punct w then [] else escaped_space) @ word_text w)
       False False (end_space w) (start_punct w) (end_punct w)]"
    using assms(2-4) by (simp add: merge_step_def Let_def)
  then show ?thesis using assms(1) by (simp add: update_last)
qed

lemma merge_markup_after_plain:
  assumes "words \<noteq> []" and "\<not> in_markup (last words)" and "\<not> end_space (last words)"
    and "in_markup w"
  shows "merge_step words w = butlast words @
    [mk_word (word_text (last words) @ (if end_punct (last words) then [] else escaped_space)
       @ word_text w) True False False False False]"
proof -
  have "merge_step words w = words[length words - 1 :=
    mk_word (word_text (last words) @ (if end_punct (last words) then [] else escaped_space)
       @ word_text w) True False False False False]"
    using assms(2-4) by (simp add: merge_step_def Let_def)
  then show ?thesis using assms(1) by (simp add: update_last)
qed

text \<open>Words of one kind after a word of the same kind are appended.\<close>

lemma merge_same_kind:
  "words \<noteq> [] \<Longrightarrow> in_markup (last words) = in_markup w \<Longrightarrow> merge_step words w = words @ [w]"
  by (cases "in_markup w") (simp_all add: merge_step_def Let_def)

lemma foldl_merge_same_kind:
  "words \<noteq> [] \<Longrightarrow> \<forall>w\<in>set ws. in_markup w = in_markup (last words) \<Longrightarrow>
   foldl merge_step words ws = words @ ws"
proof (induction ws arbitrary: words)
  case Nil
  then show ?case by simp
next
  case (Cons w ws)
  have step: "merge_step words w = words @ [w]"
    using Cons.prems by (simp add: merge_same_kind)
  have "foldl merge_step (words @ [w]) ws = (words @ [w]) @ ws"
    using Cons.prems by (intro Cons.IH) simp_all
  with step show ?case by simp
qed

text \<open>After a word has been taken in, the last word of the sequence is of its kind, ends
  with its text and, for a word outside markup, has its flags at the end.\<close>

lemma merge_step_last:
  assumes "words \<noteq> []"
  shows "in_markup (last (merge_step words w)) = in_markup w"
    and "\<exists>p. word_text (last (merge_step words w)) = p @ word_text w"
    and "\<not> in_markup w \<Longrightarrow> end_space (last (merge_step words w)) = end_space w"
    and "\<not> in_markup w \<Longrightarrow> end_punct (last (merge_step words w)) = end_punct w"
proof -
  consider (a) "\<not> in_markup (last words)" "in_markup w" "\<not> end_space (last words)"
    | (b) "in_markup (last words)" "\<not> in_markup w" "\<not> start_space w"
    | (c) "\<not> (\<not> in_markup (last words) \<and> in_markup w \<and> \<not> end_space (last words))"
        "\<not> (in_markup (last words) \<and> \<not> in_markup w \<and> \<not> start_space w)"
    by blast
  then have "in_markup (last (merge_step words w)) = in_markup w
     \<and> (\<exists>p. word_text (last (merge_step words w)) = p @ word_text w)
     \<and> (\<not> in_markup w \<longrightarrow> end_space (last (merge_step words w)) = end_space w)
     \<and> (\<not> in_markup w \<longrightarrow> end_punct (last (merge_step words w)) = end_punct w)"
  proof cases
    case a
    then show ?thesis using assms by (simp add: merge_markup_after_plain mk_word_def)
  next
    case b
    then show ?thesis using assms by (simp add: merge_plain_after_markup mk_word_def)
  next
    case c
    have "merge_step words w = words @ [w]"
      by (simp only: merge_step_def Let_def c if_False)
    then show ?thesis by simp
  qed
  then show "in_markup (last (merge_step words w)) = in_markup w"
    and "\<exists>p. word_text (last (merge_step words w)) = p @ word_text w"
    and "\<not> in_markup w \<Longrightarrow> end_space (last (merge_step words w)) = end_space w"
    and "\<not> in_markup w \<Longrightarrow> end_punct (last (merge_step words w)) = end_punct w"
    by simp_all
qed


lemma merge_words_snoc:
  "merge_words (R @ [w]) = merge_step (merge_words R) w"
  by (simp add: merge_words_def)

lemma merge_words_append:
  "merge_words (R @ W) = foldl merge_step (merge_words R) W"
  by (simp add: merge_words_def)

lemma merge_words_nonempty: "merge_words R \<noteq> []"
  by (simp add: merge_words_def foldl_merge_nonempty)

text \<open>Text, then markup with no space before it.\<close>

lemma merge_text_markup_words:
  assumes "W \<noteq> []" and "\<not> in_markup (last W)" and "\<not> end_space (last W)"
    and "in_markup mw" and "\<forall>w\<in>set M. in_markup w"
  shows "\<exists>pre p. map word_text (merge_words (R @ W)) = pre @ [p @ word_text (last W)]
      \<and> map word_text (merge_words (R @ W @ mw # M)) =
          pre @ [p @ word_text (last W) @ (if end_punct (last W) then [] else escaped_space)
                 @ word_text mw] @ map word_text M"
proof -
  define S0 where "S0 = merge_words (R @ butlast W)"
  define S1 where "S1 = merge_step S0 (last W)"
  have S0: "S0 \<noteq> []" by (simp add: S0_def merge_words_nonempty)
  have S1: "S1 \<noteq> []" using S0 by (simp add: S1_def merge_step_nonempty)
  have "R @ W = (R @ butlast W) @ [last W]" using assms(1) by simp
  then have mw1: "merge_words (R @ W) = S1"
    unfolding S1_def S0_def by (simp only: merge_words_snoc)
  have plain: "\<not> in_markup (last S1)"
    using merge_step_last(1) [OF S0, of "last W"] assms(2) by (simp add: S1_def)
  have es: "\<not> end_space (last S1)"
    using merge_step_last(3) [OF S0, of "last W"] assms(2,3) by (simp add: S1_def)
  have ep: "end_punct (last S1) = end_punct (last W)"
    using merge_step_last(4) [OF S0, of "last W"] assms(2) by (simp add: S1_def)
  obtain p where p: "word_text (last S1) = p @ word_text (last W)"
    using merge_step_last(2) [OF S0, of "last W"] by (auto simp: S1_def)
  let ?X = "mk_word (word_text (last S1) @ (if end_punct (last S1) then [] else escaped_space)
       @ word_text mw) True False False False False"
  have step: "merge_step S1 mw = butlast S1 @ [?X]"
    using S1 plain es assms(4) by (rule merge_markup_after_plain)
  have "foldl merge_step (butlast S1 @ [?X]) M = (butlast S1 @ [?X]) @ M"
    using assms(5) by (intro foldl_merge_same_kind) (simp_all add: mk_word_def)
  then have mw2: "merge_words (R @ W @ mw # M) = butlast S1 @ [?X] @ M"
    using mw1 step merge_words_append [of "R @ W" "mw # M"] by simp
  have t1: "map word_text S1 = map word_text (butlast S1) @ [p @ word_text (last W)]"
    using S1 p by (metis append_butlast_last_id list.simps(8,9) map_append)
  have t2: "map word_text (butlast S1 @ [?X] @ M) = map word_text (butlast S1) @
      [p @ word_text (last W) @ (if end_punct (last W) then [] else escaped_space) @ word_text mw]
      @ map word_text M"
    using p ep by (simp add: mk_word_def)
  show ?thesis using mw1 mw2 t1 t2 by (intro exI [of _ "map word_text (butlast S1)"] exI [of _ p]) simp
qed

text \<open>Markup, then text with no space at its start.\<close>

lemma merge_markup_text_words:
  assumes "M \<noteq> []" and "in_markup (last M)"
    and "\<not> in_markup w1" and "\<not> start_space w1" and "\<forall>w\<in>set W. \<not> in_markup w"
  shows "\<exists>pre p. map word_text (merge_words (R @ M)) = pre @ [p @ word_text (last M)]
      \<and> map word_text (merge_words (R @ M @ w1 # W)) =
          pre @ [p @ word_text (last M) @ (if start_punct w1 then [] else escaped_space)
                 @ word_text w1] @ map word_text W"
proof -
  define S0 where "S0 = merge_words (R @ butlast M)"
  define S1 where "S1 = merge_step S0 (last M)"
  have S0: "S0 \<noteq> []" by (simp add: S0_def merge_words_nonempty)
  have S1: "S1 \<noteq> []" using S0 by (simp add: S1_def merge_step_nonempty)
  have "R @ M = (R @ butlast M) @ [last M]" using assms(1) by simp
  then have mw1: "merge_words (R @ M) = S1"
    unfolding S1_def S0_def by (simp only: merge_words_snoc)
  have markup: "in_markup (last S1)"
    using merge_step_last(1) [OF S0, of "last M"] assms(2) by (simp add: S1_def)
  obtain p where p: "word_text (last S1) = p @ word_text (last M)"
    using merge_step_last(2) [OF S0, of "last M"] by (auto simp: S1_def)
  let ?X = "mk_word (word_text (last S1) @ (if start_punct w1 then [] else escaped_space)
       @ word_text w1) False False (end_space w1) (start_punct w1) (end_punct w1)"
  have step: "merge_step S1 w1 = butlast S1 @ [?X]"
    using S1 markup assms(3,4) by (rule merge_plain_after_markup)
  have "foldl merge_step (butlast S1 @ [?X]) W = (butlast S1 @ [?X]) @ W"
    using assms(5) by (intro foldl_merge_same_kind) (simp_all add: mk_word_def)
  then have mw2: "merge_words (R @ M @ w1 # W) = butlast S1 @ [?X] @ W"
    using mw1 step merge_words_append [of "R @ M" "w1 # W"] by simp
  have t1: "map word_text S1 = map word_text (butlast S1) @ [p @ word_text (last M)]"
    using S1 p by (metis append_butlast_last_id list.simps(8,9) map_append)
  have t2: "map word_text (butlast S1 @ [?X] @ W) = map word_text (butlast S1) @
      [p @ word_text (last M) @ (if start_punct w1 then [] else escaped_space) @ word_text w1]
      @ map word_text W"
    using p by (simp add: mk_word_def)
  show ?thesis using mw1 mw2 t1 t2 by (intro exI [of _ "map word_text (butlast S1)"] exI [of _ p]) simp
qed


lemma tokens_text_markup:
  assumes "py_split s \<noteq> []" and "last s \<notin> space_chars" and "py_split m = m1 # ms"
  shows "\<exists>pre p. tokens (items @ [Str s]) = pre @ [p @ last (py_split s)]
      \<and> tokens (items @ [Str s, inline_markup m]) =
          pre @ [p @ last (py_split s)
                 @ (if last s \<in> pre_markup_break_chars then [] else escaped_space) @ m1] @ ms"
proof -
  let ?R = "concat (map split_words items)"
  let ?W = "split_words (Str s)"
  let ?mk = "\<lambda>w. mk_word w True False False False False"
  have W: "?W \<noteq> []" by (rule split_words_Str_nonempty)
  have plain: "\<not> in_markup (last ?W)" using W split_words_Str_plain [of s] by simp
  have es: "\<not> end_space (last ?W)" using assms(1,2) by (simp add: split_words_last_flags)
  have ep: "end_punct (last ?W) = (last s \<in> pre_markup_break_chars)"
    using assms(1) by (simp add: split_words_last_flags)
  have "map word_text ?W = py_split s" using assms(1) by (simp add: split_words_texts)
  then have tx: "word_text (last ?W) = last (py_split s)" using W by (metis last_map)
  have M: "split_words (inline_markup m) = ?mk m1 # map ?mk ms"
    using assms(3) by (simp add: split_words_def)
  have "\<exists>pre p. map word_text (merge_words (?R @ ?W)) = pre @ [p @ word_text (last ?W)]
      \<and> map word_text (merge_words (?R @ ?W @ ?mk m1 # map ?mk ms)) =
          pre @ [p @ word_text (last ?W) @ (if end_punct (last ?W) then [] else escaped_space)
                 @ word_text (?mk m1)] @ map word_text (map ?mk ms)"
    using W plain es by (rule merge_text_markup_words) (simp_all add: mk_word_def)
  then obtain pre p where
    a: "map word_text (merge_words (?R @ ?W)) = pre @ [p @ last (py_split s)]" and
    b: "map word_text (merge_words (?R @ ?W @ ?mk m1 # map ?mk ms)) =
          pre @ [p @ last (py_split s) @ (if last s \<in> pre_markup_break_chars then [] else escaped_space)
                 @ m1] @ ms"
    by (auto simp: tx ep mk_word_def comp_def)
  have ne: "last (py_split s) \<noteq> []" using assms(1) py_split_nonempty [of "last (py_split s)" s] by simp
  have ms: "filter (\<lambda>t. t \<noteq> []) ms = ms"
    using assms(3) py_split_nonempty [of _ m] by (simp add: filter_id_conv)
  have "tokens (items @ [Str s]) = filter (\<lambda>t. t \<noteq> []) pre @ [p @ last (py_split s)]"
    using a ne by (simp add: tokens_def)
  moreover have "tokens (items @ [Str s, inline_markup m]) =
      filter (\<lambda>t. t \<noteq> []) pre @ [p @ last (py_split s)
         @ (if last s \<in> pre_markup_break_chars then [] else escaped_space) @ m1] @ ms"
    using b ne ms M by (simp add: tokens_def)
  ultimately show ?thesis by blast
qed

lemma tokens_markup_text:
  assumes "py_split m \<noteq> []" and "py_split s = x1 # xs" and "hd s \<notin> space_chars"
  shows "\<exists>pre p. tokens (items @ [inline_markup m]) = pre @ [p @ last (py_split m)]
      \<and> tokens (items @ [inline_markup m, Str s]) =
          pre @ [p @ last (py_split m)
                 @ (if hd s \<in> post_markup_break_chars then [] else escaped_space) @ x1] @ xs"
proof -
  let ?R = "concat (map split_words items)"
  let ?W = "split_words (Str s)"
  let ?M = "split_words (inline_markup m)"
  have M: "?M \<noteq> []" using assms(1) by (simp add: split_words_def)
  have markup: "in_markup (last ?M)" using M split_words_markup [of "last ?M" m] by simp
  have "map word_text ?M = py_split m" by (simp add: split_words_texts)
  then have tx: "word_text (last ?M) = last (py_split m)" using M by (metis last_map)
  have W: "?W \<noteq> []" by (rule split_words_Str_nonempty)
  have sp: "py_split s \<noteq> []" using assms(2) by simp
  have texts: "map word_text ?W = x1 # xs" using assms(2) by (simp add: split_words_texts)
  obtain w1 W' where W': "?W = w1 # W'" using W by (cases ?W) auto
  have w1: "word_text w1 = x1" "map word_text W' = xs" using texts W' by simp_all
  have plain: "\<not> in_markup w1" "\<forall>w\<in>set W'. \<not> in_markup w"
    using split_words_Str_plain [of s] W' by simp_all
  have ss: "\<not> start_space w1" using split_words_first_flags(1) [OF sp] W' assms(3) by simp
  have spn: "start_punct w1 = (hd s \<in> post_markup_break_chars)"
    using split_words_first_flags(2) [OF sp] W' by simp
  have "\<exists>pre p. map word_text (merge_words (?R @ ?M)) = pre @ [p @ word_text (last ?M)]
      \<and> map word_text (merge_words (?R @ ?M @ w1 # W')) =
          pre @ [p @ word_text (last ?M) @ (if start_punct w1 then [] else escaped_space)
                 @ word_text w1] @ map word_text W'"
    using M markup plain(1) ss plain(2) by (rule merge_markup_text_words)
  then obtain pre p where
    a: "map word_text (merge_words (?R @ ?M)) = pre @ [p @ last (py_split m)]" and
    b: "map word_text (merge_words (?R @ ?M @ ?W)) =
          pre @ [p @ last (py_split m) @ (if hd s \<in> post_markup_break_chars then [] else escaped_space)
                 @ x1] @ xs"
    by (auto simp: tx spn w1 W')
  have ne: "last (py_split m) \<noteq> []" using assms(1) py_split_nonempty [of "last (py_split m)" m] by simp
  have xs: "filter (\<lambda>t. t \<noteq> []) xs = xs"
    using assms(2) py_split_nonempty [of _ s] by (simp add: filter_id_conv)
  have "tokens (items @ [inline_markup m]) = filter (\<lambda>t. t \<noteq> []) pre @ [p @ last (py_split m)]"
    using a ne by (simp add: tokens_def)
  moreover have "tokens (items @ [inline_markup m, Str s]) =
      filter (\<lambda>t. t \<noteq> []) pre @ [p @ last (py_split m)
         @ (if hd s \<in> post_markup_break_chars then [] else escaped_space) @ x1] @ xs"
    using b ne xs by (simp add: tokens_def)
  ultimately show ?thesis by blast
qed

lemmas eval_tokens = tokens_def split_words_def py_split_def py_isspace_def merge_words_def
  merge_step_def mk_word_def space_chars_def post_markup_break_chars_def
  pre_markup_break_chars_def set_first_def set_last_def escaped_space_def

text \<open>
  C7, amended: in the span-merging pass of the word wrapper, whenever a markup word and a
  non-markup word are adjacent in the word sequence with no intervening whitespace (in either
  order), they are merged into a single token, and the escaped space \<open>\\ \<close> is inserted between
  them if and only if the adjoining boundary character of the non-markup word is not one of
  the adjacency-safe punctuation characters: the pre-markup break characters when the
  non-markup word precedes the markup, the post-markup break characters when it follows;
  when the boundary is safe punctuation they are joined with nothing between them. Here the
  non-markup word is the last (the first) word of a string that does not end (start) with
  whitespace, and the markup word is the first (the last) word of the markup.
\<close>

theorem merge_adjacent:
  "(py_split s \<noteq> [] \<longrightarrow> last s \<notin> space_chars \<longrightarrow> py_split m = m1 # ms \<longrightarrow>
      (\<exists>pre p. tokens (items @ [Str s]) = pre @ [p @ last (py_split s)]
         \<and> tokens (items @ [Str s, inline_markup m]) =
             pre @ [p @ last (py_split s)
                    @ (if last s \<in> pre_markup_break_chars then [] else escaped_space) @ m1] @ ms))
   \<and> (py_split n \<noteq> [] \<longrightarrow> py_split t = x1 # xs \<longrightarrow> hd t \<notin> space_chars \<longrightarrow>
      (\<exists>pre p. tokens (items @ [inline_markup n]) = pre @ [p @ last (py_split n)]
         \<and> tokens (items @ [inline_markup n, Str t]) =
             pre @ [p @ last (py_split n)
                    @ (if hd t \<in> post_markup_break_chars then [] else escaped_space) @ x1] @ xs))"
  using tokens_text_markup [of s m m1 ms items] tokens_markup_text [of n t x1 xs items]
  by blast

theorem merge_adjacent_witness:
  "py_split ''a('' \<noteq> [] \<and> last ''a('' \<notin> space_chars \<and> py_split ''*b*'' = [''*b*'']
   \<and> tokens [Str ''a('', inline_markup ''*b*''] = [''a(*b*'']
   \<and> py_split ''*c*'' \<noteq> [] \<and> py_split ''.x y'' = [''.x'', ''y''] \<and> hd ''.x y'' \<notin> space_chars
   \<and> tokens [inline_markup ''*c*'', Str ''.x y''] = [''*c*.x'', ''y'']"
  using merge_adjacent [of "''a(''" "''*b*''" "''*b*''" "[]" "[]" "''*c*''" "''.x y''" "''.x''" "[''y'']"]
  by (simp add: eval_tokens)

text \<open>C7 as stated fails: the full stop is a post-markup break character, and a word that
  ends with it is joined to the markup after it with the escaped space; the opening
  parenthesis is a pre-markup break character, and a word that starts with it is joined to
  the markup before it with the escaped space.\<close>

theorem merge_break_chars_swapped:
  "wrap_text None [Str ''a.'', inline_markup ''*b*''] = [''a.'' @ escaped_space @ ''*b*'']
   \<and> CHR ''.'' \<in> post_markup_break_chars
   \<and> wrap_text None [inline_markup ''*b*'', Str ''(a''] = [''*b*'' @ escaped_space @ ''(a'']
   \<and> CHR ''('' \<in> pre_markup_break_chars"
  by (simp add: wrap_text_def eval_tokens)

section \<open>Tables\<close>

lemma row_line_Str:
  "row_line cw (map (\<lambda>xs. if j < length xs then Some (map Str xs ! j) else None) cells) =
     Some (Str (''|'' @ py_join ''|''
       (map (\<lambda>(ls, w). '' '' @ py_ljust (if j < length ls then ls ! j else []) (w - 2) @ '' '')
          (zip cells cw)) @ ''|''))"
proof -
  have "map cell_segment
      (zip (map (\<lambda>xs. if j < length xs then Some (map Str xs ! j) else None) cells) cw) =
    map (\<lambda>p. Some ((\<lambda>(ls, w). '' '' @ py_ljust (if j < length ls then ls ! j else []) (w - 2) @ '' '') p))
      (zip cells cw)"
    by (simp add: zip_map1 case_prod_unfold comp_def)
  then show ?thesis by (simp only: row_line_def those_map_Some option.map)
qed

lemma row_Str:
  "row cw (map (map Str) cells) =
     Some (map (\<lambda>j. Str (''|'' @ py_join ''|''
       (map (\<lambda>(ls, w). '' '' @ py_ljust (if j < length ls then ls ! j else []) (w - 2) @ '' '')
          (zip cells cw)) @ ''|''))
       [0 ..< foldr max (map length cells) 0])"
proof -
  have "map length (map (map Str) cells) = map length cells" by (simp add: comp_def)
  then have "map (row_line cw) (zip_longest (map (map Str) cells)) =
     map (\<lambda>j. Some (Str (''|'' @ py_join ''|''
       (map (\<lambda>(ls, w). '' '' @ py_ljust (if j < length ls then ls ! j else []) (w - 2) @ '' '')
          (zip cells cw)) @ ''|'')))
       [0 ..< foldr max (map length cells) 0]"
    by (simp add: zip_longest_def row_line_Str comp_def)
  then show ?thesis by (simp only: row_def those_map_Some)
qed

lemma segment_width:
  "2 \<le> w \<Longrightarrow> int (length l) \<le> w - 2 \<Longrightarrow> int (length ('' '' @ py_ljust l (w - 2) @ '' '')) = w"
  by (simp add: py_ljust_def)

lemma border_segments:
  "\<forall>w\<in>set cw. 0 \<le> w \<Longrightarrow> map (\<lambda>seg. int (length seg)) (map (py_repeat c) cw) = cw"
  by (induction cw) (simp_all add: py_repeat_def)

lemma fmt_row_kids:
  "kind i = ''row'' \<Longrightarrow> colwidths ctx = Some cw \<Longrightarrow>
   fmt (Node i cs) ctx =
     Option.bind
       (those (map (\<lambda>(entry, w).
                 map_option (chain_intersperse (Str []))
                   (those (map (\<lambda>c. fmt c (with_width ctx (Some (w - 2)))) (children entry))))
               (zip cs cw)))
       (row cw)"
  by (simp add: fmt.simps)

lemma fmt_tbody_kids:
  "kind i = ''tbody'' \<or> kind i = ''thead'' \<Longrightarrow> colwidths ctx = Some cw \<Longrightarrow>
   fmt (Node i cs) ctx = Option.bind (those (map (\<lambda>c. fmt c ctx) cs)) (tbody cw)"
  by (auto simp: fmt.simps)

lemma fmt_tgroup_kids:
  "kind i = ''tgroup'' \<Longrightarrow>
   fmt (Node i cs) ctx =
     Option.bind (those (map (\<lambda>c. colwidth (info c))
                           (filter (\<lambda>c. kind (info c) = ''colspec'') cs)))
       (\<lambda>cw.
          map_option (\<lambda>parts. Str (border CHR ''-'' cw) # concat parts)
            (those (map (\<lambda>c.
                      if kind (info c) = ''colspec'' then Some []
                      else if kind (info c) = ''thead'' then
                        map_option (\<lambda>ls. ls @ [Str (border CHR ''='' cw)])
                          (fmt c (with_colwidths ctx cw))
                      else if kind (info c) = ''tbody'' then
                        map_option (\<lambda>ls. ls @ [Str (border CHR ''-'' cw)])
                          (fmt c (with_colwidths ctx cw))
                      else Some []) cs)))"
  by (simp add: fmt.simps)

lemma nth_map_upt0: "j < n \<Longrightarrow> map f [0 ..< n] ! j = f j"
  by simp

lemma those_length: "those xs = Some ys \<Longrightarrow> length ys = length xs"
  by (induction xs arbitrary: ys) (auto split: option.splits)

lemma those_map_cong_Some:
  "(\<And>x. x \<in> set xs \<Longrightarrow> f x = Some (g x)) \<Longrightarrow> those (map f xs) = Some (map g xs)"
  by (induction xs) simp_all

lemma border_line:
  assumes "\<forall>w\<in>set cw. 0 \<le> w"
  shows "\<exists>segs. border c cw = ''+'' @ py_join ''+'' segs @ ''+''
      \<and> map (\<lambda>seg. int (length seg)) segs = cw \<and> (\<forall>seg\<in>set segs. set seg \<subseteq> {c})"
  using border_segments [OF assms, of c]
  by (intro exI [of _ "map (py_repeat c) cw"]) (auto simp: border_def py_repeat_def)

lemma tgroup_lines:
  assumes "kind g = ''tgroup''"
    and "map (\<lambda>c. colwidth (info c)) (filter (\<lambda>c. kind (info c) = ''colspec'') gs) = map Some cw"
    and "\<forall>c\<in>set gs. kind (info c) = ''thead'' \<or> kind (info c) = ''tbody'' \<longrightarrow>
           fmt c (with_colwidths gctx cw) = Some (part c)"
  shows "fmt (Node g gs) gctx =
     Some (Str (border CHR ''-'' cw) #
           concat (map (\<lambda>c. if kind (info c) = ''thead'' then part c @ [Str (border CHR ''='' cw)]
                            else if kind (info c) = ''tbody'' then part c @ [Str (border CHR ''-'' cw)]
                            else []) gs))"
proof -
  have cw: "those (map (\<lambda>c. colwidth (info c)) (filter (\<lambda>c. kind (info c) = ''colspec'') gs)) = Some cw"
    using assms(2) those_map_Some [of "\<lambda>w. w" cw] by simp
  have "those (map (\<lambda>c.
                      if kind (info c) = ''colspec'' then Some []
                      else if kind (info c) = ''thead'' then
                        map_option (\<lambda>ls. ls @ [Str (border CHR ''='' cw)])
                          (fmt c (with_colwidths gctx cw))
                      else if kind (info c) = ''tbody'' then
                        map_option (\<lambda>ls. ls @ [Str (border CHR ''-'' cw)])
                          (fmt c (with_colwidths gctx cw))
                      else Some []) gs) =
     Some (map (\<lambda>c. if kind (info c) = ''thead'' then part c @ [Str (border CHR ''='' cw)]
                            else if kind (info c) = ''tbody'' then part c @ [Str (border CHR ''-'' cw)]
                            else []) gs)"
    using assms(3) by (intro those_map_cong_Some) auto
  then show ?thesis using assms(1) cw by (simp add: fmt_tgroup_kids)
qed

lemma tbody_lines:
  assumes "kind b = ''tbody'' \<or> kind b = ''thead''" and "colwidths bctx = Some cw"
    and "those (map (\<lambda>c. fmt c bctx) bs) = Some rows"
  shows "fmt (Node b bs) bctx = Some (chain_intersperse (Str (border CHR ''-'' cw)) rows)"
  using assms by (simp add: fmt_tbody_kids tbody_def)

lemma row_lines:
  assumes "kind r = ''row''" and "colwidths rctx = Some cw" and "length rs = length cw"
    and "those (map (\<lambda>(entry, w).
                 map_option (chain_intersperse (Str []))
                   (those (map (\<lambda>c. fmt c (with_width rctx (Some (w - 2)))) (children entry))))
               (zip rs cw)) = Some (map (map Str) cells)"
    and "\<forall>(ls, w)\<in>set (zip cells cw). 2 \<le> w \<and> (\<forall>l\<in>set ls. int (length l) \<le> w - 2)"
  shows "\<exists>segss. fmt (Node r rs) rctx = Some (map (\<lambda>segs. Str (''|'' @ py_join ''|'' segs @ ''|'')) segss)
      \<and> length segss = foldr max (map length cells) 0
      \<and> (\<forall>j<length segss. map (\<lambda>seg. int (length seg)) (segss ! j) = cw
            \<and> segss ! j = map (\<lambda>(ls, w). '' '' @ py_ljust (if j < length ls then ls ! j else []) (w - 2) @ '' '')
                            (zip cells cw))"
proof -
  let ?seg = "\<lambda>j (ls, w). '' '' @ py_ljust (if j < length ls then ls ! j else []) (w - 2) @ '' ''"
  let ?n = "foldr max (map length cells) 0"
  let ?segss = "map (\<lambda>j. map (?seg j) (zip cells cw)) [0 ..< ?n]"
  have len: "length cells = length cw"
    using those_length [OF assms(4)] assms(3) by simp
  have fmt: "fmt (Node r rs) rctx = Some (map (\<lambda>segs. Str (''|'' @ py_join ''|'' segs @ ''|'')) ?segss)"
    using assms(1,2,4) by (simp add: fmt_row_kids row_Str comp_def)
  have width: "map (\<lambda>seg. int (length seg)) (map (?seg j) (zip cells cw)) = cw" for j
  proof -
    have "\<And>p. p \<in> set (zip cells cw) \<Longrightarrow> int (length (?seg j p)) = snd p"
    proof -
      fix p assume p: "p \<in> set (zip cells cw)"
      obtain ls w where lw: "p = (ls, w)" by (cases p)
      have w: "2 \<le> w" and fit: "\<forall>l\<in>set ls. int (length l) \<le> w - 2"
        using assms(5) p lw by auto
      have "int (length (if j < length ls then ls ! j else [])) \<le> w - 2"
        using w fit by auto
      then show "int (length (?seg j p)) = snd p"
        using w lw segment_width [of w "if j < length ls then ls ! j else []"] by simp
    qed
    then have "map (\<lambda>seg. int (length seg)) (map (?seg j) (zip cells cw)) = map snd (zip cells cw)"
      by (simp add: comp_def)
    then show ?thesis using len by simp
  qed
  have nth: "?segss ! j = map (?seg j) (zip cells cw)" if "j < ?n" for j
    using that by (rule nth_map_upt0)
  have "length ?segss = ?n" by simp
  moreover have "\<forall>j<length ?segss. map (\<lambda>seg. int (length seg)) (?segss ! j) = cw
       \<and> ?segss ! j = map (?seg j) (zip cells cw)"
  proof (intro allI impI)
    fix j assume "j < length ?segss"
    then have j: "j < ?n" by simp
    show "map (\<lambda>seg. int (length seg)) (?segss ! j) = cw
       \<and> ?segss ! j = map (?seg j) (zip cells cw)"
      by (simp only: nth [OF j] width simp_thms)
  qed
  ultimately show ?thesis using fmt by blast
qed

text \<open>
  C6, amended: for every table rendered with declared column widths \<open>colwidths\<close>: every border
  line is \<open>+\<close>, then for each column a segment of exactly \<open>colwidths[i]\<close> border characters
  (the widths being non-negative), with \<open>+\<close> between the segments and at the end, so it has
  \<open>len(colwidths) + 1\<close> boundary characters; a \<open>tgroup\<close> yields the border, then each head
  followed by the border of \<open>=\<close> and each body followed by the border; a head or a body
  yields its rows with the border between them; and every line of a row that has one entry
  for each column, whose widths are at least 2 and whose cell lines are strings of at most
  \<open>colwidths[i] - 2\<close> characters, is \<open>|\<close>, then for each column a segment of exactly
  \<open>colwidths[i]\<close> characters, with \<open>|\<close> between the segments and at the end; the segment is
  a space, the line of the cell left-justified at width \<open>colwidths[i] - 2\<close> and a space, and
  a cell with fewer lines than the longest cell of the row gives blank segments for the
  missing lines.
\<close>

theorem table_geometry:
  "((\<forall>w\<in>set cw. 0 \<le> w) \<longrightarrow>
      (\<exists>segs. border c cw = ''+'' @ py_join ''+'' segs @ ''+''
         \<and> map (\<lambda>seg. int (length seg)) segs = cw \<and> (\<forall>seg\<in>set segs. set seg \<subseteq> {c})))
   \<and> (kind g = ''tgroup'' \<longrightarrow>
      map (\<lambda>c. colwidth (info c)) (filter (\<lambda>c. kind (info c) = ''colspec'') gs) = map Some cw \<longrightarrow>
      (\<forall>c\<in>set gs. kind (info c) = ''thead'' \<or> kind (info c) = ''tbody'' \<longrightarrow>
           fmt c (with_colwidths gctx cw) = Some (part c)) \<longrightarrow>
      fmt (Node g gs) gctx =
        Some (Str (border CHR ''-'' cw) #
              concat (map (\<lambda>c. if kind (info c) = ''thead'' then part c @ [Str (border CHR ''='' cw)]
                               else if kind (info c) = ''tbody'' then part c @ [Str (border CHR ''-'' cw)]
                               else []) gs)))
   \<and> (kind b = ''tbody'' \<or> kind b = ''thead'' \<longrightarrow> colwidths bctx = Some cw \<longrightarrow>
      those (map (\<lambda>c. fmt c bctx) bs) = Some rows \<longrightarrow>
      fmt (Node b bs) bctx = Some (chain_intersperse (Str (border CHR ''-'' cw)) rows))
   \<and> (kind r = ''row'' \<longrightarrow> colwidths rctx = Some cw \<longrightarrow> length rs = length cw \<longrightarrow>
      those (map (\<lambda>(entry, w).
                 map_option (chain_intersperse (Str []))
                   (those (map (\<lambda>c. fmt c (with_width rctx (Some (w - 2)))) (children entry))))
               (zip rs cw)) = Some (map (map Str) cells) \<longrightarrow>
      (\<forall>(ls, w)\<in>set (zip cells cw). 2 \<le> w \<and> (\<forall>l\<in>set ls. int (length l) \<le> w - 2)) \<longrightarrow>
      (\<exists>segss. fmt (Node r rs) rctx = Some (map (\<lambda>segs. Str (''|'' @ py_join ''|'' segs @ ''|'')) segss)
         \<and> length segss = foldr max (map length cells) 0
         \<and> (\<forall>j<length segss. map (\<lambda>seg. int (length seg)) (segss ! j) = cw
               \<and> segss ! j = map (\<lambda>(ls, w). '' '' @ py_ljust (if j < length ls then ls ! j else []) (w - 2) @ '' '')
                               (zip cells cw))))"
  using border_line [of cw c] tgroup_lines [of g gs cw gctx part] tbody_lines [of b bctx cw bs rows]
    row_lines [of r rctx cw rs cells]
  by blast

lemma para_Text:
  "fmt (Node (element ''paragraph'') [Text t]) ctx = Some (map Str (wrap_text (width ctx) [Str t]))"
  by (simp add: fmt_paragraph_kids fmt_Text element_def Text_def paragraph_fmt_def)

lemma wrap_cells:
  "wrap_text (Some 3) [Str ''ab''] = [''ab'']"
  "wrap_text (Some 2) [Str ''c''] = [''c'']"
  "wrap_text (Some 3) [Str ''d e f''] = [''d e'', ''f'']"
  "wrap_text (Some 2) [Str ''g''] = [''g'']"
  "wrap_text (Some 2) [Str ''abcdefg''] = [''abcdefg'']"
  "wrap_text (Some 2) [Str ''a''] = [''a'']"
  by (simp_all add: wrap_text_def eval_tokens)

lemma cells_54:
  "those (map (\<lambda>(entry, w).
                 map_option (chain_intersperse (Str []))
                   (those (map (\<lambda>c. fmt c (with_width (table_ctx [5, 4]) (Some (w - 2)))) (children entry))))
               (zip [entry_of ''ab'', entry_of ''c''] [5, 4])) = Some (map (map Str) [[''ab''], [''c'']])"
  "those (map (\<lambda>(entry, w).
                 map_option (chain_intersperse (Str []))
                   (those (map (\<lambda>c. fmt c (with_width (table_ctx [5, 4]) (Some (w - 2)))) (children entry))))
               (zip [entry_of ''d e f'', entry_of ''g''] [5, 4])) = Some (map (map Str) [[''d e'', ''f''], [''g'']])"
  by (simp_all add: entry_of_def para_Text with_width_def table_ctx_def wrap_cells)

lemma rows_54:
  "fmt (Node (element ''row'') [entry_of ''ab'', entry_of ''c'']) (table_ctx [5, 4]) =
     Some [Str ''| ab  | c  |'']"
  "fmt (Node (element ''row'') [entry_of ''d e f'', entry_of ''g'']) (table_ctx [5, 4]) =
     Some [Str ''| d e | g  |'', Str ''| f   |    |'']"
proof -
  have k: "kind (element ''row'') = ''row''" by (simp add: element_def)
  have c: "colwidths (table_ctx [5, 4]) = Some [5, 4]" by (simp add: table_ctx_def)
  show "fmt (Node (element ''row'') [entry_of ''ab'', entry_of ''c'']) (table_ctx [5, 4]) =
     Some [Str ''| ab  | c  |'']"
    by (simp only: fmt_row_kids [OF k c] cells_54 Option.bind.simps row_Str)
      (simp add: py_ljust_def upt_rec numeral_eq_Suc)
  show "fmt (Node (element ''row'') [entry_of ''d e f'', entry_of ''g'']) (table_ctx [5, 4]) =
     Some [Str ''| d e | g  |'', Str ''| f   |    |'']"
    by (simp only: fmt_row_kids [OF k c] cells_54 Option.bind.simps row_Str)
      (simp add: py_ljust_def upt_rec numeral_eq_Suc)
qed

lemma table_ctx_root: "with_colwidths (root_ctx (Some 72)) cw = table_ctx cw"
  by (simp add: with_colwidths_def root_ctx_def table_ctx_def)

lemma borders_54:
  "border CHR ''-'' [5, 4] = ''+-----+----+''"
  "border CHR ''='' [5, 4] = ''+=====+====+''"
  "border CHR ''-'' [4] = ''+----+''"
  "border CHR ''-'' [4, 4] = ''+----+----+''"
  by (simp_all add: border_def py_repeat_def numeral_eq_Suc)

lemma bodies_54:
  "fmt (Node (element ''thead'') [Node (element ''row'') [entry_of ''ab'', entry_of ''c'']])
     (table_ctx [5, 4]) = Some [Str ''| ab  | c  |'']"
  "fmt (Node (element ''tbody'') [Node (element ''row'') [entry_of ''d e f'', entry_of ''g'']])
     (table_ctx [5, 4]) = Some [Str ''| d e | g  |'', Str ''| f   |    |'']"
proof -
  have c: "colwidths (table_ctx [5, 4]) = Some [5, 4]" by (simp add: table_ctx_def)
  have h: "kind (element ''thead'') = ''tbody'' \<or> kind (element ''thead'') = ''thead''"
    by (simp add: element_def)
  have b: "kind (element ''tbody'') = ''tbody'' \<or> kind (element ''tbody'') = ''thead''"
    by (simp add: element_def)
  show "fmt (Node (element ''thead'') [Node (element ''row'') [entry_of ''ab'', entry_of ''c'']])
     (table_ctx [5, 4]) = Some [Str ''| ab  | c  |'']"
    by (simp add: fmt_tbody_kids [OF h c] rows_54 tbody_def)
  show "fmt (Node (element ''tbody'') [Node (element ''row'') [entry_of ''d e f'', entry_of ''g'']])
     (table_ctx [5, 4]) = Some [Str ''| d e | g  |'', Str ''| f   |    |'']"
    by (simp add: fmt_tbody_kids [OF b c] rows_54 tbody_def)
qed

lemma example_table_lines:
  "fmt (Node (element ''tgroup'')
          [colspec_of 5, colspec_of 4,
           Node (element ''thead'') [Node (element ''row'') [entry_of ''ab'', entry_of ''c'']],
           Node (element ''tbody'') [Node (element ''row'') [entry_of ''d e f'', entry_of ''g'']]])
     (root_ctx (Some 72)) =
   Some [Str ''+-----+----+'', Str ''| ab  | c  |'', Str ''+=====+====+'',
         Str ''| d e | g  |'', Str ''| f   |    |'', Str ''+-----+----+'']"
proof -
  have k: "kind (element ''tgroup'') = ''tgroup''" by (simp add: element_def)
  show ?thesis
    by (simp add: fmt_tgroup_kids [OF k] colspec_of_def table_ctx_root bodies_54 borders_54)
      (simp add: element_def)
qed

theorem table_geometry_witness:
  "fmt (Node (element ''tgroup'')
          [colspec_of 5, colspec_of 4,
           Node (element ''thead'') [Node (element ''row'') [entry_of ''ab'', entry_of ''c'']],
           Node (element ''tbody'') [Node (element ''row'') [entry_of ''d e f'', entry_of ''g'']]])
     (root_ctx (Some 72)) =
   Some [Str ''+-----+----+'', Str ''| ab  | c  |'', Str ''+=====+====+'',
         Str ''| d e | g  |'', Str ''| f   |    |'', Str ''+-----+----+'']
   \<and> fmt (Node (element ''row'') [entry_of ''d e f'', entry_of ''g'']) (table_ctx [5, 4]) =
     Some [Str ''| d e | g  |'', Str ''| f   |    |'']"
  using table_geometry [where cw = "[5, 4]" and c = "CHR ''-''" and g = "element ''tgroup''"
      and gs = "[colspec_of 5, colspec_of 4,
           Node (element ''thead'') [Node (element ''row'') [entry_of ''ab'', entry_of ''c'']],
           Node (element ''tbody'') [Node (element ''row'') [entry_of ''d e f'', entry_of ''g'']]]"
      and gctx = "root_ctx (Some 72)"
      and part = "\<lambda>c. if kind (info c) = ''thead'' then [Str ''| ab  | c  |'']
                       else [Str ''| d e | g  |'', Str ''| f   |    |'']"
      and b = "element ''tbody''"
      and bs = "[Node (element ''row'') [entry_of ''d e f'', entry_of ''g'']]"
      and bctx = "table_ctx [5, 4]"
      and rows = "[[Str ''| d e | g  |'', Str ''| f   |    |'']]"
      and r = "element ''row''" and rs = "[entry_of ''d e f'', entry_of ''g'']"
      and rctx = "table_ctx [5, 4]" and cells = "[[''d e'', ''f''], [''g'']]"]
  by (simp add: example_table_lines rows_54)

lemma cells_4:
  "those (map (\<lambda>(entry, w).
                 map_option (chain_intersperse (Str []))
                   (those (map (\<lambda>c. fmt c (with_width (table_ctx [4]) (Some (w - 2)))) (children entry))))
               (zip [entry_of ''abcdefg''] [4])) = Some (map (map Str) [[''abcdefg'']])"
  "those (map (\<lambda>(entry, w).
                 map_option (chain_intersperse (Str []))
                   (those (map (\<lambda>c. fmt c (with_width (table_ctx [4, 4]) (Some (w - 2)))) (children entry))))
               (zip [entry_of ''a''] [4, 4])) = Some (map (map Str) [[''a'']])"
  by (simp_all add: entry_of_def para_Text with_width_def table_ctx_def wrap_cells)

lemma rows_4:
  "fmt (Node (element ''row'') [entry_of ''abcdefg'']) (table_ctx [4]) = Some [Str ''| abcdefg |'']"
  "fmt (Node (element ''row'') [entry_of ''a'']) (table_ctx [4, 4]) = Some [Str ''| a  |'']"
proof -
  have k: "kind (element ''row'') = ''row''" by (simp add: element_def)
  have c: "colwidths (table_ctx [4]) = Some [4]" "colwidths (table_ctx [4, 4]) = Some [4, 4]"
    by (simp_all add: table_ctx_def)
  show "fmt (Node (element ''row'') [entry_of ''abcdefg'']) (table_ctx [4]) = Some [Str ''| abcdefg |'']"
    by (simp only: fmt_row_kids [OF k c(1)] cells_4 Option.bind.simps row_Str)
      (simp add: py_ljust_def upt_rec numeral_eq_Suc)
  show "fmt (Node (element ''row'') [entry_of ''a'']) (table_ctx [4, 4]) = Some [Str ''| a  |'']"
    by (simp only: fmt_row_kids [OF k c(2)] cells_4 Option.bind.simps row_Str)
      (simp add: py_ljust_def upt_rec numeral_eq_Suc)
qed

lemma bodies_4:
  "fmt (Node (element ''tbody'') [Node (element ''row'') [entry_of ''abcdefg'']]) (table_ctx [4]) =
     Some [Str ''| abcdefg |'']"
  "fmt (Node (element ''tbody'') [Node (element ''row'') [entry_of ''a'']]) (table_ctx [4, 4]) =
     Some [Str ''| a  |'']"
proof -
  have c: "colwidths (table_ctx [4]) = Some [4]" "colwidths (table_ctx [4, 4]) = Some [4, 4]"
    by (simp_all add: table_ctx_def)
  have b: "kind (element ''tbody'') = ''tbody'' \<or> kind (element ''tbody'') = ''thead''"
    by (simp add: element_def)
  show "fmt (Node (element ''tbody'') [Node (element ''row'') [entry_of ''abcdefg'']]) (table_ctx [4]) =
     Some [Str ''| abcdefg |'']"
    by (simp add: fmt_tbody_kids [OF b c(1)] rows_4 tbody_def)
  show "fmt (Node (element ''tbody'') [Node (element ''row'') [entry_of ''a'']]) (table_ctx [4, 4]) =
     Some [Str ''| a  |'']"
    by (simp add: fmt_tbody_kids [OF b c(2)] rows_4 tbody_def)
qed

text \<open>C6 as stated fails: a cell line longer than the column is not cut, so its segment is
  wider than the column; and a row with fewer entries than columns (an entry that spans two
  columns) has fewer segments than the border.\<close>

theorem table_row_wider_or_shorter:
  "fmt (Node (element ''tgroup'')
          [colspec_of 4, Node (element ''tbody'') [Node (element ''row'') [entry_of ''abcdefg'']]])
     (root_ctx (Some 72)) = Some [Str ''+----+'', Str ''| abcdefg |'', Str ''+----+'']
   \<and> fmt (Node (element ''tgroup'')
          [colspec_of 4, colspec_of 4,
           Node (element ''tbody'') [Node (element ''row'') [entry_of ''a'']]])
     (root_ctx (Some 72)) = Some [Str ''+----+----+'', Str ''| a  |'', Str ''+----+----+'']"
proof -
  have k: "kind (element ''tgroup'') = ''tgroup''" by (simp add: element_def)
  show ?thesis
    by (simp add: fmt_tgroup_kids [OF k] colspec_of_def table_ctx_root bodies_4 borders_54)
      (simp add: element_def)
qed

end
